theory Spec2Isabelle
  imports Complex_Main "HOL-Library.AList"
begin

section \<open>The SSL Labs batch scanner (sslsub.py)\<close>

text \<open>
  The script reads a list of hosts, probes each for an open HTTPS port and drives one
  SSL Labs assessment per reachable host through the wrapper library
  \<^verbatim>\<open>ssllabsscanner\<close> (\<^verbatim>\<open>resultsFromCache\<close>, \<^verbatim>\<open>newScan\<close>). The library, the socket layer
  and the clock are not part of the script: they are the environment, passed to the model
  as explicit parameters. Everything the script itself does is a function below, under
  the name it has in the source.
\<close>

subsection \<open>Python values\<close>

text \<open>
  What \<^verbatim>\<open>response.json()\<close> can give: \<^verbatim>\<open>None\<close>, a bool, a number, a string, a list or a
  dict with string keys. A dict keeps insertion order, so it is an association list.
  Numbers are integers here (the script only tests a number for zero and hands it on).
\<close>

datatype json =
    JNull
  | JBool bool
  | JNum int
  | JStr string
  | JList "json list"
  | JDict "(string \<times> json) list"

text \<open>
  The exceptions the script's own expressions can raise, with their message or, for a
  \<^verbatim>\<open>KeyError\<close>, the key. \<open>str_exn\<close> is \<^verbatim>\<open>str(e)\<close>, given \<^verbatim>\<open>repr\<close>.
\<close>

datatype exn =
    AttributeError string
  | TypeError string
  | KeyError json
  | IndexError string

fun str_exn :: "(json \<Rightarrow> string) \<Rightarrow> exn \<Rightarrow> string" where
  "str_exn repr (AttributeError m) = m"
| "str_exn repr (TypeError m) = m"
| "str_exn repr (KeyError k) = repr k"
| "str_exn repr (IndexError m) = m"

fun type_name :: "json \<Rightarrow> string" where
  "type_name JNull = ''NoneType''"
| "type_name (JBool b) = ''bool''"
| "type_name (JNum n) = ''int''"
| "type_name (JStr s) = ''str''"
| "type_name (JList xs) = ''list''"
| "type_name (JDict kvs) = ''dict''"

definition quoted :: "string \<Rightarrow> string" where
  "quoted s = [CHR 0x27] @ s @ [CHR 0x27]"

definition no_attribute :: "json \<Rightarrow> string \<Rightarrow> exn" where
  "no_attribute v a =
     AttributeError (quoted (type_name v) @ '' object has no attribute '' @ quoted a)"

text \<open>Truth value of a Python object, as \<^verbatim>\<open>if x\<close>, \<^verbatim>\<open>x and y\<close>, \<^verbatim>\<open>x or y\<close> test it.\<close>

fun truthy :: "json \<Rightarrow> bool" where
  "truthy JNull = False"
| "truthy (JBool b) = b"
| "truthy (JNum n) = (n \<noteq> 0)"
| "truthy (JStr s) = (s \<noteq> [])"
| "truthy (JList xs) = (xs \<noteq> [])"
| "truthy (JDict kvs) = (kvs \<noteq> [])"

definition py_or :: "json \<Rightarrow> json \<Rightarrow> json" where
  "py_or a b = (if truthy a then a else b)"

text \<open>\<^verbatim>\<open>x.get(k, d)\<close>: only a dict has the method.\<close>

fun py_get :: "json \<Rightarrow> string \<Rightarrow> json \<Rightarrow> exn + json" where
  "py_get (JDict kvs) k d = Inr (case map_of kvs k of Some v \<Rightarrow> v | None \<Rightarrow> d)"
| "py_get v k d = Inl (no_attribute v ''get'')"

text \<open>
  \<^verbatim>\<open>for e in x\<close>: a list gives its elements, a string its characters, a dict its keys;
  nothing else is iterable.
\<close>

fun py_iter :: "json \<Rightarrow> exn + json list" where
  "py_iter (JList xs) = Inr xs"
| "py_iter (JStr s) = Inr (map (\<lambda>c. JStr [c]) s)"
| "py_iter (JDict kvs) = Inr (map (\<lambda>kv. JStr (fst kv)) kvs)"
| "py_iter v = Inl (TypeError (quoted (type_name v) @ '' object is not iterable''))"

text \<open>
  \<^verbatim>\<open>str(x)\<close> is \<open>x\<close> itself on a string and \<^verbatim>\<open>repr(x)\<close> on any other of these values;
  \<^verbatim>\<open>repr\<close> is the interpreter's, taken as a parameter.
\<close>

fun py_str :: "(json \<Rightarrow> string) \<Rightarrow> json \<Rightarrow> string" where
  "py_str repr (JStr s) = s"
| "py_str repr v = repr v"

text \<open>\<^verbatim>\<open>sub in s\<close> on strings.\<close>

fun py_in :: "string \<Rightarrow> string \<Rightarrow> bool" where
  "py_in sub [] = (sub = [])"
| "py_in sub (c # cs) = (take (length sub) (c # cs) = sub \<or> py_in sub cs)"

text \<open>\<^verbatim>\<open>x[i]\<close> with an integer index (negative ones count from the end).\<close>

definition not_subscriptable :: "json \<Rightarrow> exn" where
  "not_subscriptable v = TypeError (quoted (type_name v) @ '' object is not subscriptable'')"

definition position :: "nat \<Rightarrow> int \<Rightarrow> nat option" where
  "position len i =
     (if 0 \<le> i then (if i < int len then Some (nat i) else None)
      else if - int len \<le> i then Some (nat (int len + i)) else None)"

fun py_index :: "json \<Rightarrow> int \<Rightarrow> exn + json" where
  "py_index (JList xs) i =
     (case position (length xs) i of
        Some k \<Rightarrow> Inr (xs ! k)
      | None \<Rightarrow> Inl (IndexError ''list index out of range''))"
| "py_index (JStr s) i =
     (case position (length s) i of
        Some k \<Rightarrow> Inr (JStr [s ! k])
      | None \<Rightarrow> Inl (IndexError ''string index out of range''))"
| "py_index (JDict kvs) i = Inl (KeyError (JNum i))"
| "py_index v i = Inl (not_subscriptable v)"

text \<open>\<^verbatim>\<open>x[k]\<close> with a string key.\<close>

fun py_item :: "json \<Rightarrow> string \<Rightarrow> exn + json" where
  "py_item (JDict kvs) k =
     (case map_of kvs k of Some v \<Rightarrow> Inr v | None \<Rightarrow> Inl (KeyError (JStr k)))"
| "py_item (JList xs) k =
     Inl (TypeError ''list indices must be integers or slices, not str'')"
| "py_item (JStr s) k = Inl (TypeError ''string indices must be integers'')"
| "py_item v k = Inl (not_subscriptable v)"

fun is_dict :: "json \<Rightarrow> bool" where
  "is_dict (JDict kvs) = True"
| "is_dict v = False"

text \<open>
  \<^verbatim>\<open>s.strip()\<close> and \<^verbatim>\<open>sep.join(xs)\<close>. A \<open>char\<close> is a code point below U+0100; the white
  space \<^verbatim>\<open>str.strip()\<close> removes is, in that range, U+0009 to U+000D, U+001C to U+0020,
  U+0085 and U+00A0.
\<close>

definition is_space :: "char \<Rightarrow> bool" where
  "is_space c \<longleftrightarrow> c \<in> set [CHR 0x09, CHR 0x0A, CHR 0x0B, CHR 0x0C, CHR 0x0D,
                             CHR 0x1C, CHR 0x1D, CHR 0x1E, CHR 0x1F, CHR 0x20,
                             CHR 0x85, CHR 0xA0]"

definition strip :: "string \<Rightarrow> string" where
  "strip s = rev (dropWhile is_space (rev (dropWhile is_space s)))"

fun join :: "string \<Rightarrow> string list \<Rightarrow> string" where
  "join sep [] = []"
| "join sep [x] = x"
| "join sep (x # y # ys) = x @ sep @ join sep (y # ys)"

fun strings_of :: "json list \<Rightarrow> exn + string list" where
  "strings_of [] = Inr []"
| "strings_of (JStr s # vs) =
     (case strings_of vs of Inl x \<Rightarrow> Inl x | Inr ss \<Rightarrow> Inr (s # ss))"
| "strings_of (v # vs) =
     Inl (TypeError (''sequence item: expected str instance, '' @ type_name v @ '' found''))"

definition py_join :: "string \<Rightarrow> json list \<Rightarrow> exn + string" where
  "py_join sep vs = (case strings_of vs of Inl x \<Rightarrow> Inl x | Inr ss \<Rightarrow> Inr (join sep ss))"

text \<open>Sequencing of steps that may raise.\<close>

definition and_then :: "exn + 'a \<Rightarrow> ('a \<Rightarrow> exn + 'b) \<Rightarrow> exn + 'b" where
  "and_then m f = (case m of Inl x \<Rightarrow> Inl x | Inr a \<Rightarrow> f a)"

subsection \<open>Constants\<close>

definition POLL_WAIT :: nat where "POLL_WAIT = 30"
definition BACKOFF_START :: nat where "BACKOFF_START = 60"
definition BACKOFF_MAX :: nat where "BACKOFF_MAX = 600"
definition MAX_POLL_MINUTES :: nat where "MAX_POLL_MINUTES = 20"

subsection \<open>Helpers\<close>

fun limit_in :: "(json \<Rightarrow> string) \<Rightarrow> json list \<Rightarrow> exn + bool" where
  "limit_in repr [] = Inr False"
| "limit_in repr (e # es) =
     (case py_get e ''message'' (JStr []) of
        Inl x \<Rightarrow> Inl x
      | Inr m \<Rightarrow>
          if py_in ''Concurrent assessment limit'' (py_str repr m) then Inr True
          else limit_in repr es)"

definition is_limit_error :: "(json \<Rightarrow> string) \<Rightarrow> json \<Rightarrow> exn + bool" where
  "is_limit_error repr resp =
     (case py_get resp ''errors'' JNull of
        Inl x \<Rightarrow> Inl x
      | Inr v \<Rightarrow>
          (case py_iter (py_or v (JList [])) of
             Inl x \<Rightarrow> Inl x
           | Inr errs \<Rightarrow> limit_in repr errs))"

subsection \<open>The environment and the observable state\<close>

text \<open>
  A remote call either raises (an \<^verbatim>\<open>Exception\<close> with the given message) or returns a
  value; it also takes some time. The \<open>n\<close>-th call of \<^verbatim>\<open>ssl.newScan(host)\<close> (counted
  from 0 over the whole run) answers \<open>newScan env host n\<close>.
\<close>

datatype outcome = Raise string | Return json

type_synonym reply = "nat \<times> outcome"

text \<open>
  \<^verbatim>\<open>socket.create_connection((host, port), timeout=timeout)\<close> followed by \<^verbatim>\<open>sock.close()\<close>:
  the pair completes or raises.
\<close>

datatype connection = Connected | ConnectError string

text \<open>
  The library functions the script calls: \<open>py_repr\<close> is \<^verbatim>\<open>repr()\<close>; \<open>utc_strftime ms\<close> is
  \<^verbatim>\<open>datetime.utcfromtimestamp(ms/1000).strftime("%Y-%m-%d %H:%M:%S")\<close>, \<open>None\<close> where that
  raises.
\<close>

record env =
  py_repr :: "json \<Rightarrow> string"
  utc_strftime :: "json \<Rightarrow> string option"
  create_connection :: "string \<Rightarrow> nat \<Rightarrow> nat \<Rightarrow> connection"
  resultsFromCache :: "string \<Rightarrow> reply"
  newScan :: "string \<Rightarrow> nat \<Rightarrow> reply"

text \<open>
  What an observer of the run sees: the clock \<^verbatim>\<open>time.time()\<close> in whole seconds, the
  number of \<^verbatim>\<open>newScan\<close> calls made so far, and the remote calls (with the host they
  are for) and sleeps in order. The backoff sleeps (lines 159 and 192) and the inter-poll
  sleep (line 183, with the poll number it prints) are told apart, and every run of the
  ceiling test of lines 175-176, which reads the clock, is an event that carries the
  seconds it found elapsed since \<open>started_at\<close>. A sleep advances the clock by its length, a call by the time it
  takes. Console output is not modelled otherwise.
\<close>

datatype event =
    CacheLookup string
  | NewScan string
  | BackoffSleep nat
  | PollSleep nat nat
  | PollCheck nat

record world =
  now :: nat
  ncalls :: nat
  trace :: "event list"

definition backoff_sleep :: "nat \<Rightarrow> world \<Rightarrow> world" where
  "backoff_sleep secs w = w\<lparr>now := now w + secs, trace := trace w @ [BackoffSleep secs]\<rparr>"

definition poll_sleep :: "nat \<Rightarrow> nat \<Rightarrow> world \<Rightarrow> world" where
  "poll_sleep attempt secs w =
     w\<lparr>now := now w + secs, trace := trace w @ [PollSleep attempt secs]\<rparr>"

definition poll_check :: "nat \<Rightarrow> world \<Rightarrow> world" where
  "poll_check started_at w = w\<lparr>trace := trace w @ [PollCheck (now w - started_at)]\<rparr>"

definition call_cache :: "env \<Rightarrow> string \<Rightarrow> world \<Rightarrow> outcome \<times> world" where
  "call_cache env host w =
     (case resultsFromCache env host of
        (took, r) \<Rightarrow> (r, w\<lparr>now := now w + took, trace := trace w @ [CacheLookup host]\<rparr>))"

definition call_newScan :: "env \<Rightarrow> string \<Rightarrow> world \<Rightarrow> outcome \<times> world" where
  "call_newScan env host w =
     (case newScan env host (ncalls w) of
        (took, r) \<Rightarrow>
          (r, w\<lparr>now := now w + took, ncalls := Suc (ncalls w),
                trace := trace w @ [NewScan host]\<rparr>))"

subsection \<open>Reachability probe, summary row\<close>

definition has_https :: "env \<Rightarrow> string \<Rightarrow> nat \<Rightarrow> nat \<Rightarrow> bool" where
  "has_https env host port timeout =
     (case create_connection env host port timeout of
        Connected \<Rightarrow> True
      | ConnectError e \<Rightarrow> False)"

definition pretty_ts :: "env \<Rightarrow> json \<Rightarrow> string" where
  "pretty_ts env ms = (case utc_strftime env ms of Some s \<Rightarrow> s | None \<Rightarrow> ''N/A'')"

definition NA :: json where
  "NA = JStr ''N/A''"

text \<open>Lines 99-102, the loop over \<open>protocols\<close>.\<close>

fun proto_names :: "env \<Rightarrow> json list \<Rightarrow> exn + string list" where
  "proto_names env [] = Inr []"
| "proto_names env (p # ps) =
     and_then (py_get p ''name'' (JStr [])) (\<lambda>name.
     and_then (py_get p ''version'' (JStr [])) (\<lambda>ver.
     and_then (proto_names env ps) (\<lambda>rest.
       Inr (strip (strip (py_str (py_repr env) name) @ '' '' @
                   strip (py_str (py_repr env) ver)) # rest))))"

text \<open>Line 107, the comprehension over \<open>suites\<close>.\<close>

fun cipher_names :: "json list \<Rightarrow> exn + json list" where
  "cipher_names [] = Inr []"
| "cipher_names (s # ss) =
     and_then (py_get s ''name'' JNull) (\<lambda>n.
     and_then (if truthy n then py_get s ''name'' (JStr []) else Inr JNull) (\<lambda>v.
     and_then (cipher_names ss) (\<lambda>rest.
       Inr (if truthy n then v # rest else rest))))"

text \<open>Lines 75-121, the body of the \<^verbatim>\<open>try\<close>.\<close>

definition summary_row :: "env \<Rightarrow> json \<Rightarrow> exn + json list" where
  "summary_row env data =
     and_then (py_get data ''host'' NA) (\<lambda>host.
     and_then (py_get data ''status'' NA) (\<lambda>status.
     and_then (py_get data ''endpoints'' JNull) (\<lambda>eps.
     and_then (py_index (py_or eps (JList [JDict []])) 0) (\<lambda>endpoint.
     and_then (py_get endpoint ''ipAddress'' NA) (\<lambda>ip.
     and_then (py_get endpoint ''grade'' NA) (\<lambda>grade.
     and_then (if is_dict endpoint then py_get endpoint ''details'' (JDict [])
               else Inr (JDict [])) (\<lambda>details.
     and_then (if is_dict details then py_get details ''cert'' (JDict [])
               else Inr (JDict [])) (\<lambda>cert.
     and_then (py_get cert ''subject'' NA) (\<lambda>subject.
     and_then (py_get cert ''issuerLabel'' NA) (\<lambda>issuer.
     and_then (py_get cert ''notBefore'' (JNum 0)) (\<lambda>notBefore.
     and_then (py_get cert ''notAfter'' (JNum 0)) (\<lambda>notAfter.
     and_then (py_get cert ''keySize'' NA) (\<lambda>key_size.
     and_then (py_get cert ''keyAlgorithm'' NA) (\<lambda>key_algo.
     and_then (if is_dict details then py_get details ''protocols'' (JList [])
               else Inr (JList [])) (\<lambda>protocols.
     and_then (py_iter protocols) (\<lambda>ps.
     and_then (proto_names env ps) (\<lambda>proto_list.
     and_then (if is_dict details
               then and_then (py_get details ''suites'' JNull) (\<lambda>su.
                      py_get (py_or su (JDict [])) ''list'' (JList []))
               else Inr (JList [])) (\<lambda>suites.
     and_then (py_iter suites) (\<lambda>ss.
     and_then (cipher_names ss) (\<lambda>ciphers.
     and_then (if ciphers \<noteq> [] then py_join '', '' ciphers else Inr ''N/A'') (\<lambda>cipher_str.
     and_then (if truthy suites then and_then (py_index suites 0) (\<lambda>s. py_item s ''name'')
               else Inr NA) (\<lambda>strongest.
     and_then (if truthy suites then and_then (py_index suites (- 1)) (\<lambda>s. py_item s ''name'')
               else Inr NA) (\<lambda>weakest.
     and_then (if is_dict details then py_get details ''chain'' (JDict [])
               else Inr (JDict [])) (\<lambda>chain.
     and_then (py_get chain ''issues'' NA) (\<lambda>chain_issues.
       Inr [host, ip, grade, status,
            JStr (if proto_list \<noteq> [] then join '', '' (filter (\<lambda>x. x \<noteq> []) proto_list)
                  else ''N/A''),
            strongest, weakest, JStr cipher_str,
            subject, issuer, JStr (pretty_ts env notBefore), JStr (pretty_ts env notAfter),
            key_algo, key_size, chain_issues]
     )))))))))))))))))))))))))"

text \<open>
  The function: the row of the \<^verbatim>\<open>try\<close>, or the row of the \<^verbatim>\<open>except\<close> branch (line 124),
  whose own \<^verbatim>\<open>data.get\<close> is not guarded.
\<close>

definition extract_summary :: "env \<Rightarrow> json \<Rightarrow> exn + json list" where
  "extract_summary env data =
     (case summary_row env data of
        Inr row \<Rightarrow> Inr row
      | Inl e \<Rightarrow> and_then (py_get data ''host'' NA) (\<lambda>host. Inr ([host] @ replicate 13 NA)))"

subsection \<open>Core scan logic\<close>

definition error_result :: "string \<Rightarrow> string \<Rightarrow> json" where
  "error_result host msg =
     JDict [(''host'', JStr host), (''status'', JStr ''ERROR''), (''error'', JStr msg)]"

definition timeout_warning :: json where
  "timeout_warning = JStr (''Stopped polling after '' @ ''20'' @ '' minutes.'')"

text \<open>
  Lines 177-178: \<^verbatim>\<open>data.setdefault("warnings", [])\<close>, then
  \<^verbatim>\<open>data["warnings"].append(...)\<close>. Only a list has \<^verbatim>\<open>append\<close>.
\<close>

definition append_warning :: "json \<Rightarrow> exn + json" where
  "append_warning data =
     (case data of
        JDict kvs \<Rightarrow>
          (case map_of kvs ''warnings'' of
             None \<Rightarrow> Inr (JDict (kvs @ [(''warnings'', JList [timeout_warning])]))
           | Some (JList ws) \<Rightarrow>
               Inr (JDict (AList.update ''warnings'' (JList (ws @ [timeout_warning])) kvs))
           | Some v \<Rightarrow> Inl (no_attribute v ''append''))
      | v \<Rightarrow> Inl (no_attribute v ''setdefault''))"

text \<open>Line 175-176: \<^verbatim>\<open>(time.time() - started_at) / 60.0 >= MAX_POLL_MINUTES\<close>.\<close>

definition timed_out :: "nat \<Rightarrow> nat \<Rightarrow> bool" where
  "timed_out t started_at \<longleftrightarrow>
     (of_nat MAX_POLL_MINUTES :: rat) \<le> of_int (int t - int started_at) / 60"

text \<open>
  The retry loop of lines 156-167, entered after a quota-exceeded answer. It returns the
  exception that escapes it (line 166 is outside the \<^verbatim>\<open>try\<close>), or the \<open>data\<close> and
  \<open>backoff\<close> it leaves behind. It has no exit but a \<^verbatim>\<open>break\<close>: not returning is \<open>None\<close>.
\<close>

partial_function (option) limit_loop ::
  "env \<Rightarrow> string \<Rightarrow> nat \<Rightarrow> world \<Rightarrow> ((exn + json \<times> nat) \<times> world) option"
where
  "limit_loop env host backoff w =
     (case call_newScan env host (backoff_sleep (min backoff BACKOFF_MAX) w) of
        (Raise e, w') \<Rightarrow>
          Some (Inr (error_result host (''newScan retry failed: '' @ e),
                     min (backoff * 2) BACKOFF_MAX), w')
      | (Return data, w') \<Rightarrow>
          (case is_limit_error (py_repr env) data of
             Inl x \<Rightarrow> Some (Inl x, w')
           | Inr limited \<Rightarrow>
               if \<not> limited then Some (Inr (data, min (backoff * 2) BACKOFF_MAX), w')
               else limit_loop env host (min (backoff * 2) BACKOFF_MAX) w'))"

declare limit_loop.simps [code]

text \<open>
  The poll loop of lines 170-199. It returns the function's result: a value, or the
  exception that escapes (lines 171 and 177-178 are outside the \<^verbatim>\<open>try\<close>; whatever is
  raised inside it, line 196 catches).
\<close>

function poll_loop ::
  "env \<Rightarrow> string \<Rightarrow> nat \<Rightarrow> nat \<Rightarrow> nat \<Rightarrow> json \<Rightarrow> world \<Rightarrow> (exn + json) \<times> world"
where
  "poll_loop env host started_at backoff attempt data w =
     (case py_get data ''status'' JNull of
        Inl x \<Rightarrow> (Inl x, w)
      | Inr status \<Rightarrow>
          if status = JStr ''READY'' \<or> status = JStr ''ERROR'' then (Inr data, w)
          else if timed_out (now w) started_at
          then (append_warning data, poll_check started_at w)
          else
            (case call_newScan env host
                    (poll_sleep (attempt + 1) POLL_WAIT (poll_check started_at w)) of
               (Raise e, w1) \<Rightarrow> (Inr (error_result host (''poll failed: '' @ e)), w1)
             | (Return d, w1) \<Rightarrow>
                 (case is_limit_error (py_repr env) d of
                    Inl x \<Rightarrow>
                      (Inr (error_result host (''poll failed: '' @ str_exn (py_repr env) x)), w1)
                  | Inr limited \<Rightarrow>
                      if \<not> limited
                      then poll_loop env host started_at backoff (attempt + 1) d w1
                      else
                        (case call_newScan env host
                                (backoff_sleep (min backoff BACKOFF_MAX) w1) of
                           (Raise e, w2) \<Rightarrow>
                             (Inr (error_result host (''poll failed: '' @ e)), w2)
                         | (Return d', w2) \<Rightarrow>
                             poll_loop env host started_at (min (backoff * 2) BACKOFF_MAX)
                               (attempt + 1) d' w2))))"
  by pat_completeness auto

text \<open>
  Lines 148-167, the submission phase: the first call and, on a quota-exceeded answer,
  the retry loop. Either the function is over (line 152 returns, line 155 or 166 raises)
  or polling starts with the \<open>data\<close> and the \<open>backoff\<close> reached.
\<close>

datatype submitted = Finished "exn + json" | Polling json nat

definition submit :: "env \<Rightarrow> string \<Rightarrow> world \<Rightarrow> (submitted \<times> world) option" where
  "submit env host w =
     (case call_newScan env host w of
        (Raise e, w1) \<Rightarrow>
          Some (Finished (Inr (error_result host (''newScan failed: '' @ e))), w1)
      | (Return data, w1) \<Rightarrow>
          (case is_limit_error (py_repr env) data of
             Inl x \<Rightarrow> Some (Finished (Inl x), w1)
           | Inr limited \<Rightarrow>
               if \<not> limited then Some (Polling data BACKOFF_START, w1)
               else
                 (case limit_loop env host BACKOFF_START w1 of
                    None \<Rightarrow> None
                  | Some (Inl x, w2) \<Rightarrow> Some (Finished (Inl x), w2)
                  | Some (Inr (data', backoff), w2) \<Rightarrow> Some (Polling data' backoff, w2))))"

text \<open>
  Line 140, \<^verbatim>\<open>cached and cached.get("status") == "READY"\<close>, where \<open>cached\<close> is \<^verbatim>\<open>None\<close>
  after an exception of the lookup.
\<close>

definition cached_value :: "outcome \<Rightarrow> json" where
  "cached_value r = (case r of Raise e \<Rightarrow> JNull | Return c \<Rightarrow> c)"

definition cache_ready :: "json \<Rightarrow> exn + bool" where
  "cache_ready cached =
     (if \<not> truthy cached then Inr False
      else case py_get cached ''status'' JNull of
             Inl x \<Rightarrow> Inl x
           | Inr s \<Rightarrow> Inr (s = JStr ''READY''))"

text \<open>
  The whole function: \<open>None\<close> when it does not return, else its result (the value
  returned or the exception raised) and the world it leaves.
\<close>

definition scan_until_ready ::
  "env \<Rightarrow> string \<Rightarrow> world \<Rightarrow> ((exn + json) \<times> world) option"
where
  "scan_until_ready env host w =
     (case call_cache env host w of
        (r, w0) \<Rightarrow>
          (case cache_ready (cached_value r) of
             Inl x \<Rightarrow> Some (Inl x, w0)
           | Inr ready \<Rightarrow>
               if ready then Some (Inr (cached_value r), w0)
               else
                 (case submit env host w0 of
                    None \<Rightarrow> None
                  | Some (Finished res, w1) \<Rightarrow> Some (res, w1)
                  | Some (Polling data backoff, w1) \<Rightarrow>
                      Some (poll_loop env host (now w0) backoff 0 data w1))))"

subsection \<open>Main\<close>

text \<open>
  Lines 32-47 on the lines of the input file: blank lines, comments and separators are
  dropped, then duplicates, the first occurrence staying.
\<close>

definition startswith :: "string \<Rightarrow> string \<Rightarrow> bool" where
  "startswith s p \<longleftrightarrow> take (length p) s = p"

fun dedup :: "string list \<Rightarrow> string list \<Rightarrow> string list" where
  "dedup seen [] = []"
| "dedup seen (s # ss) = (if s \<in> set seen then dedup seen ss else s # dedup (s # seen) ss)"

definition read_subdomains :: "string list \<Rightarrow> string list" where
  "read_subdomains file_lines =
     dedup [] (filter (\<lambda>l. \<not> (l = [] \<or> startswith l ''#'' \<or> startswith l ''---''))
                      (map strip file_lines))"

text \<open>
  What main writes: the rows of the CSV file, the sections of the text file and the
  per-host JSON files. The serialisation itself (\<^verbatim>\<open>csv\<close>, \<^verbatim>\<open>json.dumps\<close>) is the library's.
\<close>

datatype section_body = HttpsNotFound | FullJson json

record files =
  csv_rows :: "json list list"
  txt_sections :: "(string \<times> section_body) list"
  json_reports :: "(string \<times> json) list"

definition csv_header :: "json list" where
  "csv_header = map JStr
     [''Host'', ''IP'', ''Grade'', ''Status'', ''Protocols'',
      ''Strongest Cipher'', ''Weakest Cipher'', ''All Ciphers'',
      ''Cert Subject'', ''Cert Issuer'', ''Valid From'', ''Valid To'',
      ''Key Algorithm'', ''Key Size'', ''Chain Issues'']"

definition no_https_row :: "string \<Rightarrow> json list" where
  "no_https_row sub = map JStr
     [sub, ''N/A'', ''No HTTPS'', ''N/A'', ''N/A'',
      ''N/A'', ''N/A'', ''N/A'',
      ''N/A'', ''N/A'', ''N/A'', ''N/A'',
      ''N/A'', ''N/A'', ''N/A'']"

text \<open>
  The loop of lines 219-246. An exception of \<open>scan_until_ready\<close> or \<open>extract_summary\<close>
  ends the program with what was written so far; \<open>None\<close> is a run that never ends.
\<close>

fun scan_hosts ::
  "env \<Rightarrow> string list \<Rightarrow> files \<Rightarrow> world \<Rightarrow> (exn option \<times> files \<times> world) option"
where
  "scan_hosts env [] out w = Some (None, out, w)"
| "scan_hosts env (sub # subs) out w =
     (if \<not> has_https env sub 443 4
      then scan_hosts env subs
             (out\<lparr>csv_rows := csv_rows out @ [no_https_row sub],
                  txt_sections := txt_sections out @ [(sub, HttpsNotFound)]\<rparr>) w
      else
        (case scan_until_ready env sub w of
           None \<Rightarrow> None
         | Some (Inl x, w') \<Rightarrow> Some (Some x, out, w')
         | Some (Inr data, w') \<Rightarrow>
             (case extract_summary env data of
                Inl x \<Rightarrow> Some (Some x, out, w')
              | Inr summary \<Rightarrow>
                  scan_hosts env subs
                    (out\<lparr>csv_rows := csv_rows out @ [summary],
                         txt_sections := txt_sections out @ [(sub, FullJson data)],
                         json_reports := json_reports out @ [(sub @ ''.json'', data)]\<rparr>)
                    w')))"

definition main ::
  "env \<Rightarrow> string list \<Rightarrow> world \<Rightarrow> (exn option \<times> files \<times> world) option"
where
  "main env file_lines w =
     scan_hosts env (read_subdomains file_lines)
       \<lparr>csv_rows = [csv_header], txt_sections = [], json_reports = []\<rparr> w"

section \<open>Notions used in the statements\<close>

text \<open>
  A reply is quota-exceeded when the call returns and \<open>is_limit_error\<close> says so. A payload
  is terminal when its status is READY or ERROR, and unfinished when it is a dict with
  any other status, or none. A reply is pending when it returns an unfinished dict on
  which \<open>is_limit_error\<close> does not raise and whose \<open>warnings\<close> field is absent or a list, so
  that the warning can be appended.
\<close>

definition limited :: "env \<Rightarrow> outcome \<Rightarrow> bool" where
  "limited env r =
     (case r of Raise e \<Rightarrow> False | Return d \<Rightarrow> is_limit_error (py_repr env) d = Inr True)"

definition terminal :: "json \<Rightarrow> bool" where
  "terminal d \<longleftrightarrow>
     py_get d ''status'' JNull = Inr (JStr ''READY'') \<or>
     py_get d ''status'' JNull = Inr (JStr ''ERROR'')"

definition unfinished :: "json \<Rightarrow> bool" where
  "unfinished d \<longleftrightarrow>
     (case py_get d ''status'' JNull of
        Inl x \<Rightarrow> False
      | Inr s \<Rightarrow> s \<noteq> JStr ''READY'' \<and> s \<noteq> JStr ''ERROR'')"

definition pending :: "env \<Rightarrow> outcome \<Rightarrow> bool" where
  "pending env r =
     (case r of
        Raise e \<Rightarrow> False
      | Return d \<Rightarrow>
          is_dict d \<and> \<not> terminal d \<and> \<not> isl (is_limit_error (py_repr env) d) \<and>
          \<not> isl (append_warning d))"

text \<open>The backoff sleeps of a trace, in order, and the capped doubling sequence.\<close>

fun backoff_waits :: "event list \<Rightarrow> nat list" where
  "backoff_waits [] = []"
| "backoff_waits (BackoffSleep secs # es) = secs # backoff_waits es"
| "backoff_waits (e # es) = backoff_waits es"

text \<open>The ceiling tests of a trace: the elapsed seconds that each of them found.\<close>

fun poll_checks :: "event list \<Rightarrow> nat list" where
  "poll_checks [] = []"
| "poll_checks (PollCheck e # es) = e # poll_checks es"
| "poll_checks (e # es) = poll_checks es"

definition nth_wait :: "nat \<Rightarrow> nat \<Rightarrow> nat" where
  "nth_wait b i = min (b * 2 ^ i) BACKOFF_MAX"

fun remote_host :: "event \<Rightarrow> string option" where
  "remote_host (CacheLookup h) = Some h"
| "remote_host (NewScan h) = Some h"
| "remote_host e = None"

text \<open>
  What a stretch of the run adds to the trace: remote calls for \<open>host\<close> only, and \<open>m\<close>
  backoff sleeps that continue the doubling from \<open>b\<close>.
\<close>

definition adds :: "string \<Rightarrow> nat \<Rightarrow> world \<Rightarrow> world \<Rightarrow> nat \<Rightarrow> bool" where
  "adds host b w w' m \<longleftrightarrow>
     (\<exists>evs. trace w' = trace w @ evs \<and> backoff_waits evs = map (nth_wait b) [0..<m] \<and>
            (\<forall>e\<in>set evs. remote_host e \<in> {None, Some host}))"

text \<open>The doubling goes on from \<open>b\<close> as it does from \<open>b0\<close> after \<open>m\<close> steps.\<close>

definition continues :: "nat \<Rightarrow> nat \<Rightarrow> nat \<Rightarrow> bool" where
  "continues b0 m b \<longleftrightarrow> (\<forall>i. nth_wait b i = nth_wait b0 (m + i))"

text \<open>
  How the retry loop ends on a reply that is not quota-exceeded, and the events of \<open>n\<close>
  rounds of it.
\<close>

definition loop_exit :: "env \<Rightarrow> string \<Rightarrow> outcome \<Rightarrow> nat \<Rightarrow> exn + json \<times> nat" where
  "loop_exit env host r b =
     (case r of
        Raise e \<Rightarrow> Inr (error_result host (''newScan retry failed: '' @ e), b)
      | Return d \<Rightarrow>
          (case is_limit_error (py_repr env) d of Inl x \<Rightarrow> Inl x | Inr l \<Rightarrow> Inr (d, b)))"

definition retries :: "string \<Rightarrow> nat \<Rightarrow> nat \<Rightarrow> event list" where
  "retries host b n = concat (map (\<lambda>i. [BackoffSleep (nth_wait b i), NewScan host]) [0..<n])"


text \<open>
  The synthetic results for a remote failure with message \<open>msg\<close>, and a run that makes no
  call after the \<open>k\<close>-th and returns one of them when it made that call.
\<close>

definition failure_result :: "string \<Rightarrow> string \<Rightarrow> (exn + json) set" where
  "failure_result host msg =
     {Inr (error_result host (''newScan failed: '' @ msg)),
      Inr (error_result host (''newScan retry failed: '' @ msg)),
      Inr (error_result host (''poll failed: '' @ msg))}"

definition stops_at :: "string \<Rightarrow> string \<Rightarrow> nat \<Rightarrow> (exn + json) \<times> world \<Rightarrow> bool" where
  "stops_at host msg k y \<longleftrightarrow>
     ncalls (snd y) \<le> Suc k \<and> (ncalls (snd y) = Suc k \<longrightarrow> fst y \<in> failure_result host msg)"

text \<open>
  A run that reaches the \<open>k\<close>-th call and returns a synthetic result for its failure, or
  gives up before that call because the ceiling has been reached.
\<close>

definition reaches :: "string \<Rightarrow> string \<Rightarrow> nat \<Rightarrow> nat \<Rightarrow> (exn + json) \<times> world \<Rightarrow> bool" where
  "reaches host msg k st y \<longleftrightarrow>
     ncalls (snd y) = Suc k \<and> fst y \<in> failure_result host msg \<or>
     ncalls (snd y) \<le> k \<and> st + 60 * MAX_POLL_MINUTES \<le> now (snd y) \<and>
     (\<exists>d0 d'. append_warning d0 = Inr d' \<and> fst y = Inr d')"

text \<open>
  The warnings a payload carries. A world is below the ceiling, from the trace \<open>t0\<close> on, when
  every ceiling test logged since found less than the ceiling. A session that gave up made
  a call, and returns the answer of its last call with the warning appended; the last event
  of its trace is a ceiling test that found the ceiling reached, and every test before it,
  from \<open>t0\<close> on, found less.
\<close>

definition warnings_of :: "(string \<times> json) list \<Rightarrow> json list" where
  "warnings_of kvs = (case map_of kvs ''warnings'' of Some (JList ws) \<Rightarrow> ws | _ \<Rightarrow> [])"

definition below_ceiling :: "event list \<Rightarrow> world \<Rightarrow> bool" where
  "below_ceiling t0 w \<longleftrightarrow>
     (\<exists>evs. trace w = t0 @ evs \<and> (\<forall>e\<in>set (poll_checks evs). e < 60 * MAX_POLL_MINUTES))"

definition timed_out_result ::
  "env \<Rightarrow> string \<Rightarrow> nat \<Rightarrow> nat \<Rightarrow> event list \<Rightarrow> (exn + json) \<times> world \<Rightarrow> bool" where
  "timed_out_result env host n0 st t0 y \<longleftrightarrow>
     n0 < ncalls (snd y) \<and> st + 60 * MAX_POLL_MINUTES \<le> now (snd y) \<and>
     (\<exists>d0 d'. snd (newScan env host (ncalls (snd y) - 1)) = Return d0 \<and>
              append_warning d0 = Inr d' \<and> fst y = Inr d') \<and>
     (\<exists>evs. trace (snd y) = t0 @ evs @ [PollCheck (now (snd y) - st)] \<and>
            (\<forall>e\<in>set (poll_checks evs). e < 60 * MAX_POLL_MINUTES))"

text \<open>
  Events that are remote calls only for hosts of \<open>subs\<close> that passed the probe.
\<close>

definition only_for :: "env \<Rightarrow> string list \<Rightarrow> event list \<Rightarrow> bool" where
  "only_for env subs evs \<longleftrightarrow>
     (\<forall>e\<in>set evs. \<forall>h. remote_host e = Some h \<longrightarrow> h \<in> set subs \<and> has_https env h 443 4)"

section \<open>Sample environments\<close>

text \<open>
  Concrete answers of the remote service, for the instances below. The messages of
  these payloads are strings, which \<open>py_str\<close> returns as they are.
\<close>

definition quota_exceeded :: json where
  "quota_exceeded =
     JDict [(''errors'',
             JList [JDict [(''message'', JStr ''Concurrent assessment limit reached (1/1)'')]])]"

definition in_progress :: json where
  "in_progress = JDict [(''host'', JStr ''a.example.com''), (''status'', JStr ''IN_PROGRESS'')]"

definition ready :: json where
  "ready = JDict [(''host'', JStr ''a.example.com''), (''status'', JStr ''READY'')]"

definition mock :: "reply \<Rightarrow> (nat \<Rightarrow> reply) \<Rightarrow> env" where
  "mock c f =
     \<lparr>py_repr = (\<lambda>v. []),
      utc_strftime = (\<lambda>v. if v = JNum 0 then Some ''1970-01-01 00:00:00'' else None),
      create_connection =
        (\<lambda>h p t. if h = ''a.example.com'' then Connected else ConnectError ''refused''),
      resultsFromCache = (\<lambda>h. c), newScan = (\<lambda>h. f)\<rparr>"

definition start :: world where
  "start = \<lparr>now = 0, ncalls = 0, trace = []\<rparr>"

definition ready_at_once :: "nat \<Rightarrow> reply" where
  "ready_at_once n = (2, Return ready)"

definition limited_once :: "nat \<Rightarrow> reply" where
  "limited_once n = (0, Return (if n < 1 then quota_exceeded else ready))"

definition limited_twice :: "nat \<Rightarrow> reply" where
  "limited_twice n = (0, Return (if n < 2 then quota_exceeded else ready))"

definition always_limited :: "nat \<Rightarrow> reply" where
  "always_limited n = (0, Return quota_exceeded)"

definition fails_third :: "nat \<Rightarrow> reply" where
  "fails_third n =
     (0, if n = 0 then Return quota_exceeded else if n = 1 then Return in_progress
         else Raise ''connection reset'')"

definition limited_mid_poll :: "nat \<Rightarrow> reply" where
  "limited_mid_poll n = (0, Return (if n \<in> {0, 1, 2, 3, 5} then quota_exceeded else in_progress))"

definition suites_as_list :: json where
  "suites_as_list =
     JDict [(''host'', JStr ''a.example.com''), (''status'', JStr ''READY''),
            (''endpoints'',
             JList [JDict [(''ipAddress'', JStr ''192.0.2.1''), (''grade'', JStr ''A''),
                           (''details'',
                            JDict [(''suites'',
                                    JList [JDict [(''list'',
                                       JList [JDict [(''name'', JStr ''TLS_AES_128_GCM_SHA256'')]])]])])]])]"

definition limited_in_poll :: "nat \<Rightarrow> reply" where
  "limited_in_poll n =
     (0, Return (if n = 0 then in_progress else if n < 3 then quota_exceeded else ready))"

definition sample_lines :: "string list" where
  "sample_lines = [''# hosts'', ''b.example.com'', '' a.example.com'', ''b.example.com'']"

definition sample_files :: files where
  "sample_files =
     \<lparr>csv_rows =
        [csv_header, no_https_row ''b.example.com'',
         map JStr [''a.example.com'', ''N/A'', ''N/A'', ''READY'', ''N/A'', ''N/A'', ''N/A'',
                   ''N/A'', ''N/A'', ''N/A'', ''1970-01-01 00:00:00'', ''1970-01-01 00:00:00'',
                   ''N/A'', ''N/A'', ''N/A'']],
      txt_sections = [(''b.example.com'', HttpsNotFound), (''a.example.com'', FullJson ready)],
      json_reports = [(''a.example.com.json'', ready)]\<rparr>"

definition answers_null :: "nat \<Rightarrow> reply" where
  "answers_null n = (0, Return JNull)"

definition reachable_first :: "string list" where
  "reachable_first = [''a.example.com'', ''b.example.com'']"

definition after_submission :: world where
  "after_submission =
     \<lparr>now = 0, ncalls = 1, trace = [CacheLookup ''a.example.com'', NewScan ''a.example.com'']\<rparr>"

section \<open>Termination of the poll loop\<close>

lemma now_call_newScan: "call_newScan env host w = (r, w') \<Longrightarrow> now w \<le> now w'"
  by (auto simp: call_newScan_def split: prod.splits)

lemma timed_out_iff: "timed_out t s \<longleftrightarrow> s + 1200 \<le> t"
proof -
  have "timed_out t s \<longleftrightarrow> (20::rat) * 60 \<le> of_int (int t - int s)"
    unfolding timed_out_def MAX_POLL_MINUTES_def
    by (simp add: pos_le_divide_eq)
  also have "\<dots> \<longleftrightarrow> (of_int 1200 :: rat) \<le> of_int (int t - int s)"
    by simp
  also have "\<dots> \<longleftrightarrow> (1200::int) \<le> int t - int s"
    by (simp only: of_int_le_iff)
  also have "\<dots> \<longleftrightarrow> s + 1200 \<le> t"
    by linarith
  finally show ?thesis .
qed

termination poll_loop
proof (relation "measure (\<lambda>(env, host, started_at, backoff, attempt, data, w).
                            started_at + 1200 - now w)", goal_cases)
  case 1
  show ?case by simp
next
  case (2 env host started_at backoff attempt data w status x y d limited)
  from 2 have "now w + POLL_WAIT \<le> now y"
    using now_call_newScan
      [of env host "poll_sleep (attempt + 1) POLL_WAIT (poll_check started_at w)" "Return d" y]
    by (simp add: poll_sleep_def poll_check_def)
  with 2 show ?case
    by (simp add: timed_out_iff POLL_WAIT_def)
next
  case (3 env host started_at backoff attempt data w status x y d limited x' y' d')
  from 3 have a: "now w + POLL_WAIT \<le> now y"
    using now_call_newScan
      [of env host "poll_sleep (attempt + 1) POLL_WAIT (poll_check started_at w)" "Return d" y]
    by (simp add: poll_sleep_def poll_check_def)
  from 3 have "now y \<le> now y'"
    using now_call_newScan [of env host "backoff_sleep (min backoff BACKOFF_MAX) y" "Return d'" y']
    by (simp add: backoff_sleep_def)
  with a 3 show ?case
    by (simp add: timed_out_iff POLL_WAIT_def)
qed

declare poll_loop.simps [simp del]

section \<open>Reasoning about the two loops\<close>

text \<open>
  An invariant \<open>I\<close> that every iteration keeps and a property \<open>Q\<close> that every exit
  establishes give \<open>Q\<close> of the result: for the retry loop when it returns, for the
  poll loop always.
\<close>

lemma call_newScan_eq:
  "call_newScan env host w = (r, w') \<longleftrightarrow>
     r = snd (newScan env host (ncalls w)) \<and>
     w' = w\<lparr>now := now w + fst (newScan env host (ncalls w)), ncalls := Suc (ncalls w),
            trace := trace w @ [NewScan host]\<rparr>"
  by (auto simp: call_newScan_def split: prod.splits)

lemma ncalls_poll_sleep: "ncalls (poll_sleep a secs w) = ncalls w"
  by (simp add: poll_sleep_def)

lemma ncalls_backoff_sleep: "ncalls (backoff_sleep secs w) = ncalls w"
  by (simp add: backoff_sleep_def)

lemma poll_check_simps [simp]:
  "now (poll_check st w) = now w" "ncalls (poll_check st w) = ncalls w"
  by (simp_all add: poll_check_def)

lemma limit_loop_rule:
  assumes run: "limit_loop env host backoff w = Some y"
    and inv: "I backoff w"
    and raised: "\<And>b w e w1. I b w \<Longrightarrow>
        call_newScan env host (backoff_sleep (min b BACKOFF_MAX) w) = (Raise e, w1) \<Longrightarrow>
        Q (Inr (error_result host (''newScan retry failed: '' @ e), min (b * 2) BACKOFF_MAX), w1)"
    and malformed: "\<And>b w d w1 x. I b w \<Longrightarrow>
        call_newScan env host (backoff_sleep (min b BACKOFF_MAX) w) = (Return d, w1) \<Longrightarrow>
        is_limit_error (py_repr env) d = Inl x \<Longrightarrow> Q (Inl x, w1)"
    and answered: "\<And>b w d w1. I b w \<Longrightarrow>
        call_newScan env host (backoff_sleep (min b BACKOFF_MAX) w) = (Return d, w1) \<Longrightarrow>
        is_limit_error (py_repr env) d = Inr False \<Longrightarrow> Q (Inr (d, min (b * 2) BACKOFF_MAX), w1)"
    and again: "\<And>b w d w1. I b w \<Longrightarrow>
        call_newScan env host (backoff_sleep (min b BACKOFF_MAX) w) = (Return d, w1) \<Longrightarrow>
        is_limit_error (py_repr env) d = Inr True \<Longrightarrow> I (min (b * 2) BACKOFF_MAX) w1"
  shows "Q y"
proof -
  have "env' = env \<longrightarrow> host' = host \<longrightarrow> I b w \<longrightarrow> Q y"
    if "limit_loop env' host' b w = Some y" for env' host' b w y
  proof (rule limit_loop.raw_induct
      [where P = "\<lambda>env' host' b w y. env' = env \<longrightarrow> host' = host \<longrightarrow> I b w \<longrightarrow> Q y", OF _ that],
      goal_cases)
    case (1 f env' host' b w y)
    show ?case
    proof (intro impI)
      assume eq: "env' = env" "host' = host" and i: "I b w"
      obtain r w1 where c: "call_newScan env host (backoff_sleep (min b BACKOFF_MAX) w) = (r, w1)"
        by (cases "call_newScan env host (backoff_sleep (min b BACKOFF_MAX) w)")
      show "Q y"
      proof (cases r)
        case (Raise e)
        with 1(2) eq c raised [OF i] show ?thesis by auto
      next
        case (Return d)
        show ?thesis
        proof (cases "is_limit_error (py_repr env) d")
          case (Inl x)
          with 1(2) eq c Return malformed [OF i] show ?thesis by auto
        next
          case (Inr l)
          show ?thesis
          proof (cases l)
            case False
            with 1(2) eq c Return Inr answered [OF i] show ?thesis by auto
          next
            case True
            with c Return Inr again [OF i] have "I (min (b * 2) BACKOFF_MAX) w1" by auto
            moreover from 1(2) eq c Return Inr True
            have "f env host (min (b * 2) BACKOFF_MAX) w1 = Some y" by simp
            ultimately show ?thesis using 1(1) by blast
          qed
        qed
      qed
    qed
  qed
  with run inv show ?thesis by blast
qed

lemma limit_loop_returns:
  "\<not> limited env (snd (newScan env host (ncalls w + k))) \<Longrightarrow> \<exists>y. limit_loop env host b w = Some y"
proof (induction k arbitrary: b w)
  case 0
  then show ?case
    by (subst limit_loop.simps)
       (auto simp: limited_def call_newScan_def backoff_sleep_def
             split: prod.splits outcome.splits sum.splits)
next
  case (Suc k)
  obtain r w1 where c: "call_newScan env host (backoff_sleep (min b BACKOFF_MAX) w) = (r, w1)"
    by (cases "call_newScan env host (backoff_sleep (min b BACKOFF_MAX) w)")
  then have n: "ncalls w1 = Suc (ncalls w)"
    by (simp add: call_newScan_eq backoff_sleep_def)
  from Suc.prems have "\<not> limited env (snd (newScan env host (ncalls w1 + k)))"
    by (simp add: n)
  from Suc.IH [OF this] obtain y where "limit_loop env host (min (b * 2) BACKOFF_MAX) w1 = Some y"
    by blast
  with c show ?case
    by (subst limit_loop.simps) (auto split: outcome.splits sum.splits)
qed

lemma poll_loop_rule:
  assumes inv: "I backoff attempt data w"
    and bad_status: "\<And>b a d w x. I b a d w \<Longrightarrow> py_get d ''status'' JNull = Inl x \<Longrightarrow> Q (Inl x, w)"
    and terminal: "\<And>b a d w s. I b a d w \<Longrightarrow> py_get d ''status'' JNull = Inr s \<Longrightarrow>
        s = JStr ''READY'' \<or> s = JStr ''ERROR'' \<Longrightarrow> Q (Inr d, w)"
    and timeout: "\<And>b a d w s. I b a d w \<Longrightarrow> py_get d ''status'' JNull = Inr s \<Longrightarrow>
        s \<noteq> JStr ''READY'' \<Longrightarrow> s \<noteq> JStr ''ERROR'' \<Longrightarrow> timed_out (now w) started_at \<Longrightarrow>
        Q (append_warning d, poll_check started_at w)"
    and poll_raised: "\<And>b a d w e w1. I b a d w \<Longrightarrow> \<not> timed_out (now w) started_at \<Longrightarrow>
        call_newScan env host (poll_sleep (a + 1) POLL_WAIT (poll_check started_at w)) = (Raise e, w1) \<Longrightarrow>
        Q (Inr (error_result host (''poll failed: '' @ e)), w1)"
    and poll_malformed: "\<And>b a d w d1 w1 x. I b a d w \<Longrightarrow> \<not> timed_out (now w) started_at \<Longrightarrow>
        call_newScan env host (poll_sleep (a + 1) POLL_WAIT (poll_check started_at w)) = (Return d1, w1) \<Longrightarrow>
        is_limit_error (py_repr env) d1 = Inl x \<Longrightarrow>
        Q (Inr (error_result host (''poll failed: '' @ str_exn (py_repr env) x)), w1)"
    and poll_next: "\<And>b a d w d1 w1. I b a d w \<Longrightarrow> \<not> timed_out (now w) started_at \<Longrightarrow>
        call_newScan env host (poll_sleep (a + 1) POLL_WAIT (poll_check started_at w)) = (Return d1, w1) \<Longrightarrow>
        is_limit_error (py_repr env) d1 = Inr False \<Longrightarrow> I b (a + 1) d1 w1"
    and retry_raised: "\<And>b a d w d1 w1 e w2. I b a d w \<Longrightarrow> \<not> timed_out (now w) started_at \<Longrightarrow>
        call_newScan env host (poll_sleep (a + 1) POLL_WAIT (poll_check started_at w)) = (Return d1, w1) \<Longrightarrow>
        is_limit_error (py_repr env) d1 = Inr True \<Longrightarrow>
        call_newScan env host (backoff_sleep (min b BACKOFF_MAX) w1) = (Raise e, w2) \<Longrightarrow>
        Q (Inr (error_result host (''poll failed: '' @ e)), w2)"
    and retry_next: "\<And>b a d w d1 w1 d2 w2. I b a d w \<Longrightarrow> \<not> timed_out (now w) started_at \<Longrightarrow>
        call_newScan env host (poll_sleep (a + 1) POLL_WAIT (poll_check started_at w)) = (Return d1, w1) \<Longrightarrow>
        is_limit_error (py_repr env) d1 = Inr True \<Longrightarrow>
        call_newScan env host (backoff_sleep (min b BACKOFF_MAX) w1) = (Return d2, w2) \<Longrightarrow>
        I (min (b * 2) BACKOFF_MAX) (a + 1) d2 w2"
  shows "Q (poll_loop env host started_at backoff attempt data w)"
proof -
  have "env' = env \<longrightarrow> host' = host \<longrightarrow> st' = started_at \<longrightarrow> I b a d w \<longrightarrow>
          Q (poll_loop env' host' st' b a d w)" for env' host' st' b a d w
  proof (induction env' host' st' b a d w rule: poll_loop.induct)
  case (1 env' host' st' b a d w)
  show ?case
  proof (intro impI)
  assume eqs: "env' = env" "host' = host" "st' = started_at" and i: "I b a d w"
  note IH = "1.IH" [unfolded eqs]
  have "Q (poll_loop env host started_at b a d w)"
  proof (cases "py_get d ''status'' JNull")
    case (Inl x)
    with bad_status [OF i] show ?thesis by (simp add: poll_loop.simps [of _ _ _ _ _ d])
  next
    case (Inr s)
    show ?thesis
  proof (cases "s = JStr ''READY'' \<or> s = JStr ''ERROR''")
    case True
    with terminal [OF i Inr] Inr show ?thesis by (simp add: poll_loop.simps [of _ _ _ _ _ d])
  next
    case live: False
    then have l1: "s \<noteq> JStr ''READY''" and l2: "s \<noteq> JStr ''ERROR''" by simp_all
    show ?thesis
    proof (cases "timed_out (now w) started_at")
      case True
      with timeout [OF i Inr l1 l2 True] live Inr show ?thesis
        by (simp add: poll_loop.simps [of _ _ _ _ _ d])
    next
      case running: False
      obtain r w1 where c1: "call_newScan env host (poll_sleep (a + 1) POLL_WAIT (poll_check started_at w)) = (r, w1)"
        by (cases "call_newScan env host (poll_sleep (a + 1) POLL_WAIT (poll_check started_at w))")
      show ?thesis
      proof (cases r)
        case (Raise e)
        with poll_raised [OF i running] c1 Inr live running show ?thesis
          by (simp add: poll_loop.simps [of _ _ _ _ _ d])
      next
        case (Return d1)
        note c1 = c1 [unfolded Return]
        show ?thesis
        proof (cases "is_limit_error (py_repr env) d1")
          case (Inl x)
          with poll_malformed [OF i running c1] c1 Inr live running show ?thesis
            by (simp add: poll_loop.simps [of _ _ _ _ _ d])
        next
          case lim: (Inr l)
          show ?thesis
          proof (cases l)
            case False
            with poll_next [OF i running c1] lim have "I b (a + 1) d1 w1" by simp
            with IH(1) [OF Inr live running c1 [symmetric] refl] lim False
            have "Q (poll_loop env host started_at b (a + 1) d1 w1)" by simp
            with c1 Inr live running lim False show ?thesis
              by (simp add: poll_loop.simps [of _ _ _ _ _ d])
          next
            case True
            obtain r2 w2 where
              c2: "call_newScan env host (backoff_sleep (min b BACKOFF_MAX) w1) = (r2, w2)"
              by (cases "call_newScan env host (backoff_sleep (min b BACKOFF_MAX) w1)")
            show ?thesis
            proof (cases r2)
              case (Raise e)
              with retry_raised [OF i running c1] lim True c2 c1 Inr live running show ?thesis
                by (simp add: poll_loop.simps [of _ _ _ _ _ d])
            next
              case ret2: (Return d2)
              note c2 = c2 [unfolded ret2]
              from retry_next [OF i running c1 _ c2] lim True
              have "I (min (b * 2) BACKOFF_MAX) (a + 1) d2 w2" by simp
              with IH(2) [OF Inr live running c1 [symmetric] refl _ _ c2 [symmetric] refl] lim True
              have "Q (poll_loop env host started_at (min (b * 2) BACKOFF_MAX) (a + 1) d2 w2)"
                by simp
              with c1 c2 Inr live running lim True show ?thesis
                by (simp add: poll_loop.simps [of _ _ _ _ _ d])
            qed
          qed
        qed
      qed
    qed
  qed
  qed
  then show "Q (poll_loop env' host' st' b a d w)" by (simp only: eqs)
  qed
  qed
  with inv show ?thesis by blast
qed

section \<open>The trace of a session\<close>

lemma backoff_waits_append: "backoff_waits (xs @ ys) = backoff_waits xs @ backoff_waits ys"
  by (induction xs rule: backoff_waits.induct) simp_all

lemma nth_wait_double: "nth_wait (min (b * 2) BACKOFF_MAX) i = nth_wait b (Suc i)"
proof (cases "b * 2 \<le> BACKOFF_MAX")
  case True
  then show ?thesis by (simp add: nth_wait_def mult.assoc)
next
  case False
  define x where "x = b * 2"
  have r: "nth_wait b (Suc i) = min (x * 2 ^ i) BACKOFF_MAX"
    by (simp add: nth_wait_def x_def mult.assoc)
  from False have "BACKOFF_MAX \<le> x" by (simp add: x_def)
  also have "x \<le> x * 2 ^ i" by simp
  finally have c: "BACKOFF_MAX \<le> x * 2 ^ i" .
  have a: "BACKOFF_MAX \<le> BACKOFF_MAX * 2 ^ i" by simp
  from False have "nth_wait (min (b * 2) BACKOFF_MAX) i = min (BACKOFF_MAX * 2 ^ i) BACKOFF_MAX"
    by (simp add: nth_wait_def min_def)
  also have "\<dots> = BACKOFF_MAX" using a by (rule min_absorb2)
  also have "\<dots> = min (x * 2 ^ i) BACKOFF_MAX" using c by (rule min_absorb2 [symmetric])
  finally show ?thesis by (simp only: r)
qed

lemma adds_refl: "adds host b w w 0"
  by (simp add: adds_def)

lemma adds_cache:
  "call_cache env host w = (r, w0) \<Longrightarrow> adds host b w w0 0"
  by (auto simp: adds_def call_cache_def split: prod.splits)

lemma adds_call:
  assumes "adds host b0 w0 w m" and "call_newScan env host w = (r, w1)"
  shows "adds host b0 w0 w1 m"
  using assms by (auto simp: adds_def call_newScan_eq backoff_waits_append)

lemma adds_check:
  assumes "adds host b0 w0 w m"
  shows "adds host b0 w0 (poll_check st w) m"
  using assms by (auto simp: adds_def poll_check_def backoff_waits_append)

lemma adds_poll:
  assumes "adds host b0 w0 w m"
    and "call_newScan env host (poll_sleep a secs (poll_check st w)) = (r, w1)"
  shows "adds host b0 w0 w1 m"
  using assms
  by (auto simp: adds_def call_newScan_eq poll_sleep_def poll_check_def backoff_waits_append)

lemma adds_backoff:
  assumes "adds host b0 w0 w m"
    and "call_newScan env host (backoff_sleep (nth_wait b0 m) w) = (r, w1)"
  shows "adds host b0 w0 w1 (Suc m)"
  using assms by (auto simp: adds_def call_newScan_eq backoff_sleep_def backoff_waits_append)

lemma continues_0: "continues b 0 b"
  by (simp add: continues_def)

lemma continues_wait: "continues b0 m b \<Longrightarrow> min b BACKOFF_MAX = nth_wait b0 m"
  unfolding continues_def nth_wait_def by (metis add.right_neutral mult.right_neutral power_0)

lemma continues_double: "continues b0 m b \<Longrightarrow> continues b0 (Suc m) (min (b * 2) BACKOFF_MAX)"
  by (simp add: continues_def nth_wait_double)

lemma backoff_step:
  assumes "\<exists>m. adds host b0 w0 w m \<and> continues b0 m b"
    and "call_newScan env host (backoff_sleep (min b BACKOFF_MAX) w) = (r, w1)"
  shows "\<exists>m. adds host b0 w0 w1 m \<and> continues b0 m (min (b * 2) BACKOFF_MAX)"
proof -
  from assms(1) obtain m where m: "adds host b0 w0 w m" "continues b0 m b" by blast
  from assms(2) have "call_newScan env host (backoff_sleep (nth_wait b0 m) w) = (r, w1)"
    by (simp add: continues_wait [OF m(2)])
  from adds_backoff [OF m(1) this] continues_double [OF m(2)] show ?thesis by blast
qed

lemma poll_step:
  assumes "\<exists>m. adds host b0 w0 w m \<and> continues b0 m b"
    and "call_newScan env host (poll_sleep a secs (poll_check st w)) = (r, w1)"
  shows "\<exists>m. adds host b0 w0 w1 m \<and> continues b0 m b"
proof -
  from assms(1) obtain m where m: "adds host b0 w0 w m" "continues b0 m b" by blast
  from adds_poll [OF m(1) assms(2)] m(2) show ?thesis by blast
qed

lemma limit_loop_adds:
  assumes "limit_loop env host b w = Some (res, w')" and "adds host b0 w0 w m" and "continues b0 m b"
  shows "\<exists>m'. adds host b0 w0 w' m' \<and> (\<forall>d b'. res = Inr (d, b') \<longrightarrow> continues b0 m' b')"
proof -
  let ?I = "\<lambda>b w. \<exists>m. adds host b0 w0 w m \<and> continues b0 m b"
  let ?Q = "\<lambda>y. \<exists>m'. adds host b0 w0 (snd y) m' \<and> (\<forall>d b'. fst y = Inr (d, b') \<longrightarrow> continues b0 m' b')"
  have "?Q (res, w')"
  proof (rule limit_loop_rule [where I = ?I and Q = ?Q, OF assms(1)], goal_cases)
    case 1
    from assms(2,3) show ?case by blast
  next
    case (2 b w e w1)
    from backoff_step [OF 2(1,2)] show ?case by auto
  next
    case (3 b w d w1 x)
    from backoff_step [OF 3(1,2)] show ?case by auto
  next
    case (4 b w d w1)
    from backoff_step [OF 4(1,2)] show ?case by auto
  next
    case (5 b w d w1)
    from backoff_step [OF 5(1,2)] show ?case .
  qed
  then show ?thesis by simp
qed

lemma poll_loop_adds:
  assumes "adds host b0 w0 w m" and "continues b0 m b"
  shows "\<exists>m'. adds host b0 w0 (snd (poll_loop env host started_at b a d w)) m'"
proof (rule poll_loop_rule [where I = "\<lambda>b a d w. \<exists>m. adds host b0 w0 w m \<and> continues b0 m b"
      and Q = "\<lambda>y. \<exists>m'. adds host b0 w0 (snd y) m'"], goal_cases)
  case 1
  from assms show ?case by blast
next
  case (2 b a d w x)
  then show ?case by auto
next
  case (3 b a d w s)
  then show ?case by auto
next
  case (4 b a d w s)
  then show ?case by (auto intro: adds_check)
next
  case (5 b a d w e w1)
  from poll_step [OF 5(1,3)] show ?case by auto
next
  case (6 b a d w d1 w1 x)
  from poll_step [OF 6(1,3)] show ?case by auto
next
  case (7 b a d w d1 w1)
  from poll_step [OF 7(1,3)] show ?case .
next
  case (8 b a d w d1 w1 e w2)
  from backoff_step [OF poll_step [OF 8(1,3)] 8(5)] show ?case by auto
next
  case (9 b a d w d1 w1 d2 w2)
  from backoff_step [OF poll_step [OF 9(1,3)] 9(5)] show ?case .
qed

lemma submit_adds:
  assumes "submit env host w = Some (res, w')" and "adds host BACKOFF_START w0 w 0"
  shows "\<exists>m. adds host BACKOFF_START w0 w' m \<and>
             (\<forall>d b. res = Polling d b \<longrightarrow> continues BACKOFF_START m b)"
proof -
  obtain r w1 where c: "call_newScan env host w = (r, w1)"
    by (cases "call_newScan env host w")
  from adds_call [OF assms(2) c] have a1: "adds host BACKOFF_START w0 w1 0" .
  show ?thesis
  proof (cases "limited env r")
    case False
    with assms(1) c a1 show ?thesis
      by (auto simp: submit_def limited_def continues_0 split: outcome.splits sum.splits if_splits)
  next
    case True
    then obtain d where r: "r = Return d" and l: "is_limit_error (py_repr env) d = Inr True"
      by (auto simp: limited_def split: outcome.splits)
    from assms(1) c r l obtain y where
      y: "limit_loop env host BACKOFF_START w1 = Some (y, w')"
      and res: "res = (case y of Inl x \<Rightarrow> Finished (Inl x) | Inr (d', b) \<Rightarrow> Polling d' b)"
      by (auto simp: submit_def split: option.splits sum.splits prod.splits)
    from limit_loop_adds [OF y a1 continues_0] res show ?thesis
      by (auto split: sum.splits)
  qed
qed

lemma session_adds:
  assumes "scan_until_ready env host w = Some (r, w')"
  shows "\<exists>m. adds host BACKOFF_START w w' m"
proof -
  obtain c w0 where c: "call_cache env host w = (c, w0)"
    by (cases "call_cache env host w")
  note a0 = adds_cache [OF c, of BACKOFF_START]
  show ?thesis
  proof (cases "cache_ready (cached_value c) = Inr False")
    case False
    with assms c have "w' = w0"
      by (auto simp: scan_until_ready_def split: sum.splits if_splits)
    with a0 show ?thesis by blast
  next
    case True
    with assms c obtain res w1 where s: "submit env host w0 = Some (res, w1)"
      by (auto simp: scan_until_ready_def split: option.splits)
    from submit_adds [OF s a0] obtain m where
      m: "adds host BACKOFF_START w w1 m" "\<forall>d b. res = Polling d b \<longrightarrow> continues BACKOFF_START m b"
      by blast
    show ?thesis
    proof (cases res)
      case (Finished x)
      with assms c True s have "w' = w1" by (simp add: scan_until_ready_def)
      with m show ?thesis by blast
    next
      case (Polling d b)
      with assms c True s have "w' = snd (poll_loop env host (now w0) b 0 d w1)"
        by (auto simp: scan_until_ready_def)
      with poll_loop_adds [OF m(1), of b] m(2) Polling show ?thesis by simp
    qed
  qed
qed

lemma nth_wait_mono: "i \<le> j \<Longrightarrow> nth_wait b i \<le> nth_wait b j"
  unfolding nth_wait_def
  by (intro min.mono mult_le_mono2 power_increasing) simp_all

lemma sorted_waits: "sorted (map (nth_wait b) [0..<m])"
  by (simp add: sorted_iff_nth_mono nth_wait_mono)

lemma limited_quota: "is_limit_error repr quota_exceeded = Inr True"
  by (simp add: is_limit_error_def quota_exceeded_def py_or_def)

lemma not_limited_ready: "is_limit_error repr ready = Inr False"
  by (simp add: is_limit_error_def ready_def py_or_def)

lemma run_limited_twice:
  "scan_until_ready (mock (0, Raise ''no cache'') limited_twice) ''a.example.com'' start =
        Some (Inr ready,
              \<lparr>now = 180, ncalls = 3,
                trace = [CacheLookup ''a.example.com'', NewScan ''a.example.com'', BackoffSleep 60,
                         NewScan ''a.example.com'', BackoffSleep 120, NewScan ''a.example.com'']\<rparr>)"
    by (simp add: scan_until_ready_def call_cache_def mock_def start_def cached_value_def
         cache_ready_def submit_def call_newScan_def limited_twice_def limited_quota
         not_limited_ready limit_loop.simps backoff_sleep_def BACKOFF_START_def BACKOFF_MAX_def
         poll_loop.simps) (simp add: ready_def)


lemma run_limited_once:
  "scan_until_ready (mock (0, Raise ''no cache'') limited_once) ''a.example.com'' start =
        Some (Inr ready,
              \<lparr>now = 60, ncalls = 2,
                trace = [CacheLookup ''a.example.com'', NewScan ''a.example.com'', BackoffSleep 60,
                         NewScan ''a.example.com'']\<rparr>)"
    by (simp add: scan_until_ready_def call_cache_def mock_def start_def cached_value_def
         cache_ready_def submit_def call_newScan_def limited_once_def limited_quota
         not_limited_ready limit_loop.simps backoff_sleep_def BACKOFF_START_def BACKOFF_MAX_def
         poll_loop.simps) (simp add: ready_def)

section \<open>The backoff interval\<close>

text \<open>
  C1, as the code has it. Whatever the world a session starts in, the backoff sleeps it
  adds to the trace are, in order, 60, 120, 240, 480, 600, 600, ...: the \<open>N\<close>-th backoff
  sleep of the session lasts \<open>min (BACKOFF_START * 2 ^ (N - 1)) BACKOFF_MAX\<close> seconds. So
  the interval starts at the floor in every session, the sleeps never decrease and never
  exceed the ceiling, and no answer in between resets the interval.
\<close>

theorem backoff_waits_double:
  assumes "scan_until_ready env host w = Some (r, w')"
  shows "\<exists>evs. trace w' = trace w @ evs \<and>
           backoff_waits evs =
             map (\<lambda>i. min (BACKOFF_START * 2 ^ i) BACKOFF_MAX) [0..<length (backoff_waits evs)] \<and>
           sorted (backoff_waits evs) \<and> (\<forall>secs\<in>set (backoff_waits evs). secs \<le> BACKOFF_MAX)"
proof -
  from session_adds [OF assms] obtain m evs where
    t: "trace w' = trace w @ evs" and e: "backoff_waits evs = map (nth_wait BACKOFF_START) [0..<m]"
    by (auto simp: adds_def)
  have n: "nth_wait BACKOFF_START = (\<lambda>i. min (BACKOFF_START * 2 ^ i) BACKOFF_MAX)"
    by (simp add: fun_eq_iff nth_wait_def)
  have len: "length (backoff_waits evs) = m"
    by (subst e) simp
  have eq: "backoff_waits evs =
      map (\<lambda>i. min (BACKOFF_START * 2 ^ i) BACKOFF_MAX) [0..<length (backoff_waits evs)]"
    by (subst len) (rule e [unfolded n])
  have srt: "sorted (backoff_waits evs)"
    by (subst e) (rule sorted_waits)
  have bnd: "\<forall>secs\<in>set (backoff_waits evs). secs \<le> BACKOFF_MAX"
    by (subst e) (simp add: nth_wait_def)
  from t eq srt bnd show ?thesis by blast
qed

theorem backoff_waits_double_witness:
  "\<exists>evs. trace \<lparr>now = 180, ncalls = 3,
                 trace = [CacheLookup ''a.example.com'', NewScan ''a.example.com'',
                          BackoffSleep 60, NewScan ''a.example.com'', BackoffSleep 120,
                          NewScan ''a.example.com'']\<rparr> = trace start @ evs \<and>
         backoff_waits evs =
           map (\<lambda>i. min (BACKOFF_START * 2 ^ i) BACKOFF_MAX) [0..<length (backoff_waits evs)] \<and>
         sorted (backoff_waits evs) \<and> (\<forall>secs\<in>set (backoff_waits evs). secs \<le> BACKOFF_MAX)"
  by (rule backoff_waits_double [OF run_limited_twice])

text \<open>
  The claim's own formula fails at \<open>N = 1\<close>: after one quota-exceeded answer the script
  sleeps 60 seconds before the second attempt, where \<open>min (floor * 2 ^ N) ceiling\<close> is 120.
\<close>

theorem first_backoff_counterexample:
  "scan_until_ready (mock (0, Raise ''no cache'') limited_once) ''a.example.com'' start =
     Some (Inr ready,
           \<lparr>now = 60, ncalls = 2,
             trace = [CacheLookup ''a.example.com'', NewScan ''a.example.com'', BackoffSleep 60,
                      NewScan ''a.example.com'']\<rparr>) \<and>
   min (BACKOFF_START * 2 ^ 1) BACKOFF_MAX = 120"
  using run_limited_once by (simp add: BACKOFF_START_def BACKOFF_MAX_def)

section \<open>The submission phase\<close>

lemma retries_Suc: "retries host b (Suc n) =
    [BackoffSleep (min b BACKOFF_MAX), NewScan host] @ retries host (min (b * 2) BACKOFF_MAX) n"
  unfolding retries_def
  by (simp only: map_upt_Suc concat.simps nth_wait_double) (simp add: nth_wait_def)

lemma limit_loop_once:
  assumes "call_newScan env host (backoff_sleep (min b BACKOFF_MAX) w) = (r, w1)"
  shows "limit_loop env host b w =
           (if limited env r then limit_loop env host (min (b * 2) BACKOFF_MAX) w1
            else Some (loop_exit env host r (min (b * 2) BACKOFF_MAX), w1))"
  using assms
  by (subst limit_loop.simps)
     (auto simp: limited_def loop_exit_def split: outcome.splits sum.splits)

lemma limit_loop_exact:
  assumes "\<forall>i<J. limited env (snd (newScan env host (ncalls w + i)))"
    and "\<not> limited env (snd (newScan env host (ncalls w + J)))"
  shows "\<exists>w'. limit_loop env host b w =
              Some (loop_exit env host (snd (newScan env host (ncalls w + J))) (nth_wait b (Suc J)), w') \<and>
            ncalls w' = ncalls w + Suc J \<and>
            trace w' = trace w @ retries host b (Suc J)"
  using assms
proof (induction J arbitrary: b w)
  case 0
  obtain r w1 where c: "call_newScan env host (backoff_sleep (min b BACKOFF_MAX) w) = (r, w1)"
    by (cases "call_newScan env host (backoff_sleep (min b BACKOFF_MAX) w)")
  then have f: "r = snd (newScan env host (ncalls w))" "ncalls w1 = Suc (ncalls w)"
    "trace w1 = trace w @ [BackoffSleep (min b BACKOFF_MAX), NewScan host]"
    by (simp_all add: call_newScan_eq backoff_sleep_def)
  from "0.prems" f have "\<not> limited env r" by simp
  with limit_loop_once [OF c] f show ?case
    by (simp add: retries_def nth_wait_def)
next
  case (Suc J)
  obtain r w1 where c: "call_newScan env host (backoff_sleep (min b BACKOFF_MAX) w) = (r, w1)"
    by (cases "call_newScan env host (backoff_sleep (min b BACKOFF_MAX) w)")
  then have f: "r = snd (newScan env host (ncalls w))" "ncalls w1 = Suc (ncalls w)"
    "trace w1 = trace w @ [BackoffSleep (min b BACKOFF_MAX), NewScan host]"
    by (simp_all add: call_newScan_eq backoff_sleep_def)
  from Suc.prems(1) f have l: "limited env r" by auto
  have a: "\<forall>i<J. limited env (snd (newScan env host (ncalls w1 + i)))"
  proof (intro allI impI)
    fix i assume "i < J"
    then have "Suc i < Suc J" by simp
    with Suc.prems(1) have "limited env (snd (newScan env host (ncalls w + Suc i)))" by blast
    then show "limited env (snd (newScan env host (ncalls w1 + i)))" by (simp add: f(2))
  qed
  from Suc.prems(2) have b: "\<not> limited env (snd (newScan env host (ncalls w1 + J)))"
    by (simp add: f(2))
  from Suc.IH [OF a b, of "min (b * 2) BACKOFF_MAX"] obtain w' where
    w': "limit_loop env host (min (b * 2) BACKOFF_MAX) w1 =
           Some (loop_exit env host (snd (newScan env host (ncalls w1 + J)))
                   (nth_wait (min (b * 2) BACKOFF_MAX) (Suc J)), w')"
        "ncalls w' = ncalls w1 + Suc J"
        "trace w' = trace w1 @ retries host (min (b * 2) BACKOFF_MAX) (Suc J)"
    by blast
  have "limit_loop env host b w = limit_loop env host (min (b * 2) BACKOFF_MAX) w1"
    using limit_loop_once [OF c] l by simp
  with w' f(2,3) show ?case
    by (simp add: nth_wait_double retries_Suc [of host b "Suc J"])
qed


lemma limited_twice_prefix:
  "\<forall>i<2. limited (mock (0, Raise ''no cache'') limited_twice)
            (snd (newScan (mock (0, Raise ''no cache'') limited_twice) ''a.example.com''
                    (ncalls start + i)))"
  by (simp add: mock_def limited_twice_def limited_def limited_quota start_def)

lemma limited_twice_answer:
  "\<not> limited (mock (0, Raise ''no cache'') limited_twice)
            (snd (newScan (mock (0, Raise ''no cache'') limited_twice) ''a.example.com''
                    (ncalls start + 2)))"
  by (simp add: mock_def limited_twice_def limited_def not_limited_ready start_def)

lemma submit_exact:
  assumes "\<forall>i<K. limited env (snd (newScan env host (ncalls w + i)))"
    and "\<not> limited env (snd (newScan env host (ncalls w + K)))"
  shows "\<exists>res w'. submit env host w = Some (res, w') \<and>
           ncalls w' = ncalls w + K + 1 \<and>
           trace w' = trace w @ NewScan host # retries host BACKOFF_START K \<and>
           (case snd (newScan env host (ncalls w + K)) of
              Return d \<Rightarrow>
                (case is_limit_error (py_repr env) d of
                   Inl x \<Rightarrow> res = Finished (Inl x)
                 | Inr l \<Rightarrow> res = Polling d (nth_wait BACKOFF_START K))
            | Raise e \<Rightarrow>
                res = (if K = 0
                       then Finished (Inr (error_result host (''newScan failed: '' @ e)))
                       else Polling (error_result host (''newScan retry failed: '' @ e))
                              (nth_wait BACKOFF_START K)))"
proof -
  obtain r w1 where c: "call_newScan env host w = (r, w1)"
    by (cases "call_newScan env host w")
  then have f: "r = snd (newScan env host (ncalls w))" "ncalls w1 = Suc (ncalls w)"
    "trace w1 = trace w @ [NewScan host]"
    by (simp_all add: call_newScan_eq)
  show ?thesis
  proof (cases K)
    case 0
    with assms(2) f have "\<not> limited env r" by simp
    with c f 0 show ?thesis
      by (auto simp: submit_def limited_def retries_def nth_wait_def BACKOFF_START_def
            BACKOFF_MAX_def split: outcome.splits sum.splits)
  next
    case (Suc J)
    with assms(1) f have l: "limited env r" by auto
    have a: "\<forall>i<J. limited env (snd (newScan env host (ncalls w1 + i)))"
    proof (intro allI impI)
      fix i assume "i < J"
      then have "Suc i < K" by (simp add: Suc)
      with assms(1) have "limited env (snd (newScan env host (ncalls w + Suc i)))" by blast
      then show "limited env (snd (newScan env host (ncalls w1 + i)))" by (simp add: f(2))
    qed
    from assms(2) have b: "\<not> limited env (snd (newScan env host (ncalls w1 + J)))"
      by (simp add: f(2) Suc)
    from limit_loop_exact [OF a b, of BACKOFF_START] obtain w' where
      w': "limit_loop env host BACKOFF_START w1 =
             Some (loop_exit env host (snd (newScan env host (ncalls w1 + J)))
                     (nth_wait BACKOFF_START (Suc J)), w')"
          "ncalls w' = ncalls w1 + Suc J"
          "trace w' = trace w1 @ retries host BACKOFF_START (Suc J)"
      by blast
    have k: "ncalls w1 + J = ncalls w + K" by (simp add: f(2) Suc)
    from l obtain d0 where r: "r = Return d0" "is_limit_error (py_repr env) d0 = Inr True"
      by (auto simp: limited_def split: outcome.splits)
    define rK where "rK = snd (newScan env host (ncalls w + K))"
    define res where "res =
      (case loop_exit env host rK (nth_wait BACKOFF_START K) of
         Inl x \<Rightarrow> Finished (Inl x) | Inr (d', b') \<Rightarrow> Polling d' b')"
    from c r w'(1) have s: "submit env host w = Some (res, w')"
      by (simp add: submit_def k Suc res_def rK_def split: sum.splits prod.splits)
    from w'(2) f(2) have n: "ncalls w' = ncalls w + K + 1" by (simp add: Suc)
    from w'(3) f(3) have t: "trace w' = trace w @ NewScan host # retries host BACKOFF_START K"
      by (simp add: Suc)
    have e: "(case rK of
              Return d \<Rightarrow>
                (case is_limit_error (py_repr env) d of
                   Inl x \<Rightarrow> res = Finished (Inl x)
                 | Inr l \<Rightarrow> res = Polling d (nth_wait BACKOFF_START K))
            | Raise e \<Rightarrow>
                res = (if K = 0
                       then Finished (Inr (error_result host (''newScan failed: '' @ e)))
                       else Polling (error_result host (''newScan retry failed: '' @ e))
                              (nth_wait BACKOFF_START K)))"
      by (cases rK) (auto simp: res_def loop_exit_def Suc split: sum.splits)
    from s n t e show ?thesis unfolding rK_def by blast
  qed
qed

text \<open>
  C7. If the first \<open>K\<close> replies of the submission phase are quota-exceeded and the next
  one is not, the phase makes exactly \<open>K + 1\<close> calls, with one backoff sleep before each
  retry, and ends on that reply: polling starts with it when it is a response (and with
  the synthetic ERROR when a retry raised); a failure of the very first call, or a
  payload \<open>is_limit_error\<close> cannot read, ends the function.
\<close>

theorem submit_retries_until_answered:
  assumes "\<forall>i<K. limited env (snd (newScan env host (ncalls w + i)))"
    and "\<not> limited env (snd (newScan env host (ncalls w + K)))"
  shows "\<exists>res w'. submit env host w = Some (res, w') \<and>
           ncalls w' = ncalls w + K + 1 \<and>
           trace w' = trace w @ NewScan host # retries host BACKOFF_START K \<and>
           (case snd (newScan env host (ncalls w + K)) of
              Return d \<Rightarrow>
                (case is_limit_error (py_repr env) d of
                   Inl x \<Rightarrow> res = Finished (Inl x)
                 | Inr l \<Rightarrow> res = Polling d (nth_wait BACKOFF_START K))
            | Raise e \<Rightarrow>
                res = (if K = 0
                       then Finished (Inr (error_result host (''newScan failed: '' @ e)))
                       else Polling (error_result host (''newScan retry failed: '' @ e))
                              (nth_wait BACKOFF_START K)))"
  using assms by (rule submit_exact)

theorem submit_retries_until_answered_witness:
  "\<exists>res w'. submit (mock (0, Raise ''no cache'') limited_twice) ''a.example.com'' start =
             Some (res, w') \<and>
           ncalls w' = ncalls start + 2 + 1 \<and>
           trace w' = trace start @ NewScan ''a.example.com'' #
                        retries ''a.example.com'' BACKOFF_START 2 \<and>
           (case snd (newScan (mock (0, Raise ''no cache'') limited_twice) ''a.example.com''
                        (ncalls start + 2)) of
              Return d \<Rightarrow>
                (case is_limit_error (py_repr (mock (0, Raise ''no cache'') limited_twice)) d of
                   Inl x \<Rightarrow> res = Finished (Inl x)
                 | Inr l \<Rightarrow> res = Polling d (nth_wait BACKOFF_START 2))
            | Raise e \<Rightarrow>
                res = (if (2::nat) = 0
                       then Finished (Inr (error_result ''a.example.com'' (''newScan failed: '' @ e)))
                       else Polling (error_result ''a.example.com'' (''newScan retry failed: '' @ e))
                              (nth_wait BACKOFF_START 2)))"
  by (rule submit_retries_until_answered [OF limited_twice_prefix limited_twice_answer])

section \<open>Termination of a session\<close>

lemma limit_loop_never:
  assumes "\<forall>n. limited env (snd (newScan env host n))"
  shows "limit_loop env host b w = None"
proof (rule ccontr)
  assume "limit_loop env host b w \<noteq> None"
  then obtain y where y: "limit_loop env host b w = Some y" by blast
  have l: "is_limit_error (py_repr env) d = Inr True \<and> r = Return d"
    if "call_newScan env host v = (r, v')" and "r = Raise e \<or> r = Return d" for v r v' e d
    using assms [rule_format, of "ncalls v"] that
    by (auto simp: call_newScan_eq limited_def split: outcome.splits)
  show False
  proof (rule limit_loop_rule [where I = "\<lambda>b w. True" and Q = "\<lambda>y. False", OF y], goal_cases)
    case 1
    show ?case ..
  next
    case (2 b w e w1)
    from l [OF 2(2), of e] show ?case by simp
  next
    case (3 b w d w1 x)
    from l [OF 3(2), of _ d] 3(3) show ?case by simp
  next
    case (4 b w d w1)
    from l [OF 4(2), of _ d] 4(3) show ?case by simp
  next
    case (5 b w d w1)
    show ?case ..
  qed
qed

lemma all_limited:
  "\<forall>n. limited (mock c always_limited) (snd (newScan (mock c always_limited) h n))"
  by (simp add: mock_def always_limited_def limited_def limited_quota)

lemma first_answer:
  assumes "\<not> limited env (snd (newScan env host (n + k)))"
  obtains K where "K \<le> k" and "\<forall>i<K. limited env (snd (newScan env host (n + i)))"
    and "\<not> limited env (snd (newScan env host (n + K)))"
proof -
  define K where "K = (LEAST j. \<not> limited env (snd (newScan env host (n + j))))"
  have a: "\<not> limited env (snd (newScan env host (n + K)))"
    unfolding K_def using assms by (rule LeastI)
  have b: "K \<le> k"
    unfolding K_def using assms by (rule Least_le)
  have c: "\<forall>i<K. limited env (snd (newScan env host (n + i)))"
    unfolding K_def using not_less_Least by blast
  from that [OF b c a] show ?thesis .
qed

lemma terminal_error_result: "terminal (error_result host msg)"
  by (simp add: terminal_def error_result_def)

lemma poll_loop_terminal: "terminal d \<Longrightarrow> poll_loop env host st b a d w = (Inr d, w)"
  by (subst poll_loop.simps) (auto simp: terminal_def)



lemma call_cache_eq:
  "call_cache env host w = (c, w0) \<longleftrightarrow>
     c = snd (resultsFromCache env host) \<and>
     w0 = w\<lparr>now := now w + fst (resultsFromCache env host), trace := trace w @ [CacheLookup host]\<rparr>"
  by (auto simp: call_cache_def split: prod.splits)








section \<open>The polling ceiling\<close>

lemma append_warning_fields:
  assumes "append_warning d = Inr d'"
  shows "\<exists>kvs kvs'. d = JDict kvs \<and> d' = JDict kvs' \<and>
           (\<forall>key. key \<noteq> ''warnings'' \<longrightarrow> map_of kvs' key = map_of kvs key) \<and>
           map_of kvs' ''warnings'' = Some (JList (warnings_of kvs @ [timeout_warning]))"
proof (cases d)
  case (JDict kvs)
  show ?thesis
  proof (cases "map_of kvs ''warnings''")
    case None
    with assms JDict show ?thesis
      by (auto simp: append_warning_def warnings_of_def map_add_def split: option.splits)
  next
    case (Some v)
    with assms JDict show ?thesis
      by (cases v) (auto simp: append_warning_def warnings_of_def update_conv')
  qed
qed (use assms in \<open>simp_all add: append_warning_def\<close>)

lemma pending_call:
  assumes "\<forall>n\<ge>n0. pending env (snd (newScan env host n))" and "n0 \<le> ncalls v"
    and "call_newScan env host v = (r, v1)"
  shows "\<exists>d. r = Return d \<and> pending env (Return d) \<and> n0 < ncalls v1 \<and>
             snd (newScan env host (ncalls v1 - 1)) = Return d"
proof -
  from assms(3) have r: "r = snd (newScan env host (ncalls v))" "ncalls v1 = Suc (ncalls v)"
    by (simp_all add: call_newScan_eq)
  from assms(1,2) have "pending env (snd (newScan env host (ncalls v)))" by blast
  then have "pending env r" by (simp add: r(1))
  then obtain d where d: "r = Return d" by (cases r) (simp_all add: pending_def)
  from \<open>pending env r\<close> d have 1: "pending env (Return d)" by simp
  from r(1) d have "snd (newScan env host (ncalls v)) = Return d" by simp
  then have 2: "snd (newScan env host (ncalls v1 - 1)) = Return d" by (simp add: r(2))
  from assms(2) have 3: "n0 < ncalls v1" by (simp add: r(2))
  from d 1 2 3 show ?thesis by blast
qed

lemma pending_last:
  assumes "\<forall>n\<ge>n0. pending env (snd (newScan env host n))" and "n0 < ncalls v"
    and "snd (newScan env host (ncalls v - 1)) = Return d"
  shows "pending env (Return d)"
proof -
  from assms(2) have "n0 \<le> ncalls v - 1" by simp
  with assms(1) have "pending env (snd (newScan env host (ncalls v - 1)))" by blast
  with assms(3) show ?thesis by simp
qed

lemma poll_checks_append: "poll_checks (xs @ ys) = poll_checks xs @ poll_checks ys"
  by (induction xs rule: poll_checks.induct) simp_all

lemma poll_checks_retries: "poll_checks (retries host b n) = []"
  by (induction n) (simp_all add: retries_def poll_checks_append)

lemma below_ceiling_poll:
  assumes "below_ceiling t0 w" and "\<not> timed_out (now w) st"
    and "call_newScan env host (poll_sleep a secs (poll_check st w)) = (r, w1)"
  shows "below_ceiling t0 w1"
proof -
  from assms(1) obtain evs where
    e: "trace w = t0 @ evs" "\<forall>e\<in>set (poll_checks evs). e < 60 * MAX_POLL_MINUTES"
    by (auto simp: below_ceiling_def)
  from assms(3) have "trace w1 = trace w @ [PollCheck (now w - st), PollSleep a secs, NewScan host]"
    by (simp add: call_newScan_eq poll_sleep_def poll_check_def)
  with e(1) have 1: "trace w1 = t0 @ (evs @ [PollCheck (now w - st), PollSleep a secs, NewScan host])"
    by simp
  from assms(2) have "now w - st < 60 * MAX_POLL_MINUTES"
    by (simp add: timed_out_iff MAX_POLL_MINUTES_def)
  with e(2) have
    "\<forall>e\<in>set (poll_checks (evs @ [PollCheck (now w - st), PollSleep a secs, NewScan host])).
        e < 60 * MAX_POLL_MINUTES"
    by (simp add: poll_checks_append)
  with 1 show ?thesis unfolding below_ceiling_def by blast
qed

lemma below_ceiling_backoff:
  assumes "below_ceiling t0 w" and "call_newScan env host (backoff_sleep secs w) = (r, w1)"
  shows "below_ceiling t0 w1"
proof -
  from assms(1) obtain evs where
    e: "trace w = t0 @ evs" "\<forall>e\<in>set (poll_checks evs). e < 60 * MAX_POLL_MINUTES"
    by (auto simp: below_ceiling_def)
  from assms(2) have "trace w1 = trace w @ [BackoffSleep secs, NewScan host]"
    by (simp add: call_newScan_eq backoff_sleep_def)
  with e(1) have 1: "trace w1 = t0 @ (evs @ [BackoffSleep secs, NewScan host])"
    by simp
  from e(2) have "\<forall>e\<in>set (poll_checks (evs @ [BackoffSleep secs, NewScan host])).
      e < 60 * MAX_POLL_MINUTES"
    by (simp add: poll_checks_append)
  with 1 show ?thesis unfolding below_ceiling_def by blast
qed

lemma poll_loop_pending:
  assumes p: "\<forall>n\<ge>n0. pending env (snd (newScan env host n))"
    and i: "n0 < ncalls w" "snd (newScan env host (ncalls w - 1)) = Return d"
      "below_ceiling t0 w"
  shows "timed_out_result env host n0 st t0 (poll_loop env host st b a d w)"
proof (rule poll_loop_rule
    [where I = "\<lambda>b a d w. n0 < ncalls w \<and> snd (newScan env host (ncalls w - 1)) = Return d \<and>
                  below_ceiling t0 w"
       and Q = "timed_out_result env host n0 st t0"], goal_cases)
  case 1
  from i show ?case by simp
next
  case (2 b a d w x)
  then have "pending env (Return d)" using pending_last [OF p] by blast
  with 2 show ?case by (cases d) (simp_all add: pending_def)
next
  case (3 b a d w s)
  then have "pending env (Return d)" using pending_last [OF p] by blast
  with 3 show ?case by (auto simp: pending_def terminal_def)
next
  case (4 b a d w s)
  then have "pending env (Return d)" using pending_last [OF p] by blast
  then obtain d' where d': "append_warning d = Inr d'"
    by (cases "append_warning d") (simp_all add: pending_def)
  from 4(1) obtain evs where
    e: "trace w = t0 @ evs" "\<forall>e\<in>set (poll_checks evs). e < 60 * MAX_POLL_MINUTES"
    by (auto simp: below_ceiling_def)
  from e(1) have "trace (poll_check st w) = t0 @ evs @ [PollCheck (now (poll_check st w) - st)]"
    by (simp add: poll_check_def)
  with e(2) have "\<exists>evs. trace (poll_check st w) = t0 @ evs @ [PollCheck (now (poll_check st w) - st)] \<and>
      (\<forall>e\<in>set (poll_checks evs). e < 60 * MAX_POLL_MINUTES)"
    by blast
  with 4 d' show ?case
    by (simp add: timed_out_result_def timed_out_iff MAX_POLL_MINUTES_def)
next
  case (5 b a d w e w1)
  then have "n0 \<le> ncalls (poll_sleep (a + 1) POLL_WAIT (poll_check st w))"
    by (simp add: ncalls_poll_sleep)
  from pending_call [OF p this 5(3)] show ?case by simp
next
  case (6 b a d w d1 w1 x)
  then have "n0 \<le> ncalls (poll_sleep (a + 1) POLL_WAIT (poll_check st w))"
    by (simp add: ncalls_poll_sleep)
  from pending_call [OF p this 6(3)] 6(4) show ?case by (simp add: pending_def)
next
  case (7 b a d w d1 w1)
  then have "n0 \<le> ncalls (poll_sleep (a + 1) POLL_WAIT (poll_check st w))"
    by (simp add: ncalls_poll_sleep)
  from pending_call [OF p this 7(3)] below_ceiling_poll [OF _ 7(2,3)] 7(1) show ?case by simp
next
  case (8 b a d w d1 w1 e w2)
  then have "n0 \<le> ncalls (poll_sleep (a + 1) POLL_WAIT (poll_check st w))"
    by (simp add: ncalls_poll_sleep)
  from pending_call [OF p this 8(3)] have "n0 \<le> ncalls (backoff_sleep (min b BACKOFF_MAX) w1)"
    by (simp add: ncalls_backoff_sleep)
  from pending_call [OF p this 8(5)] show ?case by simp
next
  case (9 b a d w d1 w1 d2 w2)
  then have "n0 \<le> ncalls (poll_sleep (a + 1) POLL_WAIT (poll_check st w))"
    by (simp add: ncalls_poll_sleep)
  from pending_call [OF p this 9(3)] have "n0 \<le> ncalls (backoff_sleep (min b BACKOFF_MAX) w1)"
    by (simp add: ncalls_backoff_sleep)
  from 9(1) have "below_ceiling t0 w" by simp
  from below_ceiling_poll [OF this 9(2,3)] have "below_ceiling t0 w1" .
  from below_ceiling_backoff [OF this 9(5)] have "below_ceiling t0 w2" .
  with pending_call [OF p \<open>n0 \<le> ncalls (backoff_sleep (min b BACKOFF_MAX) w1)\<close> 9(5)]
  show ?case by simp
qed

lemma pending_ready_limited:
  assumes "pending env r" and "\<not> limited env r"
  shows "\<exists>d. r = Return d \<and> is_limit_error (py_repr env) d = Inr False"
proof -
  from assms(1) obtain d where d: "r = Return d" by (cases r) (simp_all add: pending_def)
  with assms(1) have "\<not> isl (is_limit_error (py_repr env) d)" by (simp add: pending_def)
  then obtain l where l: "is_limit_error (py_repr env) d = Inr l"
    by (cases "is_limit_error (py_repr env) d") simp_all
  with assms(2) d have "\<not> l" by (simp add: limited_def)
  with d l show ?thesis by simp
qed

lemma pending_mid_poll:
  "\<forall>n\<ge>ncalls start. pending (mock (0, Raise ''no cache'') limited_mid_poll)
       (snd (newScan (mock (0, Raise ''no cache'') limited_mid_poll) ''a.example.com'' n))"
  by (simp add: mock_def limited_mid_poll_def pending_def quota_exceeded_def in_progress_def
        terminal_def is_limit_error_def py_or_def append_warning_def)

lemma answer_mid_poll:
  "\<not> limited (mock (0, Raise ''no cache'') limited_mid_poll)
       (snd (newScan (mock (0, Raise ''no cache'') limited_mid_poll) ''a.example.com''
              (ncalls start + 4)))"
  by (simp add: mock_def limited_mid_poll_def limited_def in_progress_def start_def
        is_limit_error_def py_or_def)

lemma no_cache:
  "cache_ready (cached_value (snd (resultsFromCache (mock (0, Raise ''no cache'') f) h))) =
     Inr False"
  by (simp add: mock_def cached_value_def cache_ready_def)

lemma not_limited_in_progress: "is_limit_error repr in_progress = Inr False"
  by (simp add: is_limit_error_def in_progress_def py_or_def)

lemmas run_defs =
  scan_until_ready_def call_cache_def mock_def start_def cached_value_def
  cache_ready_def submit_def call_newScan_def limited_quota not_limited_ready
  not_limited_in_progress limit_loop.simps backoff_sleep_def poll_sleep_def
  BACKOFF_START_def BACKOFF_MAX_def POLL_WAIT_def poll_loop.simps timed_out_iff
  poll_check_def

lemma run_mid_poll:
  "scan_until_ready (mock (0, Raise ''no cache'') limited_mid_poll) ''a.example.com'' start =
     Some (Inr (JDict [(''host'', JStr ''a.example.com''), (''status'', JStr ''IN_PROGRESS''),
                       (''warnings'', JList [JStr ''Stopped polling after 20 minutes.''])]),
           \<lparr>now = 1530, ncalls = 7,
             trace = [CacheLookup ''a.example.com'', NewScan ''a.example.com'',
                      BackoffSleep 60, NewScan ''a.example.com'',
                      BackoffSleep 120, NewScan ''a.example.com'',
                      BackoffSleep 240, NewScan ''a.example.com'',
                      BackoffSleep 480, NewScan ''a.example.com'',
                      PollCheck 900, PollSleep 1 30, NewScan ''a.example.com'',
                      BackoffSleep 600, NewScan ''a.example.com'', PollCheck 1530]\<rparr>)"
  by (simp add: run_defs limited_mid_poll_def in_progress_def quota_exceeded_def
        is_limit_error_def py_or_def append_warning_def timeout_warning_def)

text \<open>
  C3, as the code has it. Suppose the cache has no READY result, every reply is pending (a
  dict whose status is neither READY nor ERROR, on which \<open>is_limit_error\<close> does not raise, and
  whose warnings are absent or a list) and the submission phase ends (some reply is not
  quota-exceeded). Then the session returns, at the first test of the ceiling at the head
  of the poll loop that finds 20 minutes or more elapsed since the session started: that
  test is the last event of the session, every test before it found less than 20 minutes,
  and so the return is not within the 20 minutes but after them. It returns the answer of
  its last call with the timeout warning appended to the warnings list (a new list when
  there was none) and every other field, the status among them, as it was.
\<close>

theorem never_ready_times_out:
  assumes "cache_ready (cached_value (snd (resultsFromCache env host))) = Inr False"
    and "\<forall>n\<ge>ncalls w. pending env (snd (newScan env host n))"
    and "\<not> limited env (snd (newScan env host (ncalls w + k)))"
  shows "\<exists>kvs kvs' w' evs. scan_until_ready env host w = Some (Inr (JDict kvs'), w') \<and>
           ncalls w < ncalls w' \<and>
           snd (newScan env host (ncalls w' - 1)) = Return (JDict kvs) \<and>
           now w + fst (resultsFromCache env host) + 60 * MAX_POLL_MINUTES \<le> now w' \<and>
           trace w' =
             trace w @ evs @ [PollCheck (now w' - (now w + fst (resultsFromCache env host)))] \<and>
           (\<forall>e\<in>set (poll_checks evs). e < 60 * MAX_POLL_MINUTES) \<and>
           (\<forall>key. key \<noteq> ''warnings'' \<longrightarrow> map_of kvs' key = map_of kvs key) \<and>
           map_of kvs' ''warnings'' = Some (JList (warnings_of kvs @ [timeout_warning]))"
proof -
  obtain c w0 where cc: "call_cache env host w = (c, w0)"
    by (cases "call_cache env host w")
  then have w0: "ncalls w0 = ncalls w" "now w0 = now w + fst (resultsFromCache env host)"
      "trace w0 = trace w @ [CacheLookup host]"
    and c: "c = snd (resultsFromCache env host)"
    by (simp_all add: call_cache_eq)
  from assms(2) have p: "\<forall>n\<ge>ncalls w0. pending env (snd (newScan env host n))"
    by (simp add: w0)
  from assms(3) have "\<not> limited env (snd (newScan env host (ncalls w0 + k)))"
    by (simp add: w0)
  from first_answer [OF this] obtain K where
    K: "\<forall>i<K. limited env (snd (newScan env host (ncalls w0 + i)))"
       "\<not> limited env (snd (newScan env host (ncalls w0 + K)))"
    by blast
  from p have "pending env (snd (newScan env host (ncalls w0 + K)))" by simp
  from pending_ready_limited [OF this K(2)] obtain d where
    d: "snd (newScan env host (ncalls w0 + K)) = Return d"
       "is_limit_error (py_repr env) d = Inr False"
    by blast
  from submit_exact [OF K] d obtain w1 where
    s: "submit env host w0 = Some (Polling d (nth_wait BACKOFF_START K), w1)"
    and n1: "ncalls w1 = ncalls w0 + K + 1"
    and t1: "trace w1 = trace w0 @ NewScan host # retries host BACKOFF_START K"
    by auto
  from t1 w0(3) have
    "trace w1 = trace w @ (CacheLookup host # NewScan host # retries host BACKOFF_START K)"
    by simp
  moreover have
    "\<forall>e\<in>set (poll_checks (CacheLookup host # NewScan host # retries host BACKOFF_START K)).
        e < 60 * MAX_POLL_MINUTES"
    by (simp add: poll_checks_retries)
  ultimately have b: "below_ceiling (trace w) w1"
    unfolding below_ceiling_def by blast
  from n1 d(1) have i: "ncalls w0 < ncalls w1" "snd (newScan env host (ncalls w1 - 1)) = Return d"
    by simp_all
  define y where "y = poll_loop env host (now w0) (nth_wait BACKOFF_START K) 0 d w1"
  from poll_loop_pending [OF p i b]
  have "timed_out_result env host (ncalls w0) (now w0) (trace w) y"
    by (simp add: y_def)
  then obtain d0 d' evs where
    y: "ncalls w0 < ncalls (snd y)" "now w0 + 60 * MAX_POLL_MINUTES \<le> now (snd y)"
       "snd (newScan env host (ncalls (snd y) - 1)) = Return d0"
       "append_warning d0 = Inr d'" "fst y = Inr d'"
       "trace (snd y) = trace w @ evs @ [PollCheck (now (snd y) - now w0)]"
       "\<forall>e\<in>set (poll_checks evs). e < 60 * MAX_POLL_MINUTES"
    unfolding timed_out_result_def by blast
  from append_warning_fields [OF y(4)] obtain kvs kvs' where
    f: "d0 = JDict kvs" "d' = JDict kvs'"
       "\<forall>key. key \<noteq> ''warnings'' \<longrightarrow> map_of kvs' key = map_of kvs key"
       "map_of kvs' ''warnings'' = Some (JList (warnings_of kvs @ [timeout_warning]))"
    by blast
  from cc c assms(1) s have "scan_until_ready env host w = Some y"
    by (simp add: scan_until_ready_def y_def)
  with y(5) f(2) have r: "scan_until_ready env host w = Some (Inr (JDict kvs'), snd y)"
    by (cases y) simp
  from y(1,2,3,6) f(1) w0 have
    "ncalls w < ncalls (snd y)" "snd (newScan env host (ncalls (snd y) - 1)) = Return (JDict kvs)"
    "now w + fst (resultsFromCache env host) + 60 * MAX_POLL_MINUTES \<le> now (snd y)"
    "trace (snd y) =
       trace w @ evs @ [PollCheck (now (snd y) - (now w + fst (resultsFromCache env host)))]"
    by simp_all
  with r f(3,4) y(7) show ?thesis by blast
qed

theorem never_ready_times_out_witness:
  "\<exists>kvs kvs' w' evs.
      scan_until_ready (mock (0, Raise ''no cache'') limited_mid_poll) ''a.example.com'' start =
        Some (Inr (JDict kvs'), w') \<and>
      ncalls start < ncalls w' \<and>
      snd (newScan (mock (0, Raise ''no cache'') limited_mid_poll) ''a.example.com''
             (ncalls w' - 1)) = Return (JDict kvs) \<and>
      now start +
        fst (resultsFromCache (mock (0, Raise ''no cache'') limited_mid_poll) ''a.example.com'') +
        60 * MAX_POLL_MINUTES \<le> now w' \<and>
      trace w' =
        trace start @ evs @
        [PollCheck (now w' - (now start +
           fst (resultsFromCache (mock (0, Raise ''no cache'') limited_mid_poll)
                  ''a.example.com'')))] \<and>
      (\<forall>e\<in>set (poll_checks evs). e < 60 * MAX_POLL_MINUTES) \<and>
      (\<forall>key. key \<noteq> ''warnings'' \<longrightarrow> map_of kvs' key = map_of kvs key) \<and>
      map_of kvs' ''warnings'' = Some (JList (warnings_of kvs @ [timeout_warning]))"
  by (rule never_ready_times_out [OF no_cache pending_mid_poll answer_mid_poll])

text \<open>
  The claim's bound fails: the ceiling is only tested at the head of the poll loop, and
  the backoff sleeps count against the same clock. With four quota-exceeded answers to
  the submission and one to the first poll, calls that take no time and no answer ever
  terminal, the session returns 1530 seconds after it started.
\<close>

theorem late_timeout_counterexample:
  "scan_until_ready (mock (0, Raise ''no cache'') limited_mid_poll) ''a.example.com'' start =
     Some (Inr (JDict [(''host'', JStr ''a.example.com''), (''status'', JStr ''IN_PROGRESS''),
                       (''warnings'', JList [JStr ''Stopped polling after 20 minutes.''])]),
           \<lparr>now = 1530, ncalls = 7,
             trace = [CacheLookup ''a.example.com'', NewScan ''a.example.com'',
                      BackoffSleep 60, NewScan ''a.example.com'',
                      BackoffSleep 120, NewScan ''a.example.com'',
                      BackoffSleep 240, NewScan ''a.example.com'',
                      BackoffSleep 480, NewScan ''a.example.com'',
                      PollCheck 900, PollSleep 1 30, NewScan ''a.example.com'',
                      BackoffSleep 600, NewScan ''a.example.com'', PollCheck 1530]\<rparr>) \<and>
   now start + 60 * MAX_POLL_MINUTES < 1530"
  using run_mid_poll by (simp add: start_def MAX_POLL_MINUTES_def)

section \<open>Remote failures\<close>

lemma returned_before_failure:
  assumes "snd (newScan env host k) = Raise msg" and "ncalls w \<le> k"
    and "call_newScan env host w = (Return d, w1)"
  shows "ncalls w1 \<le> k"
proof -
  from assms(3) have r: "snd (newScan env host (ncalls w)) = Return d" "ncalls w1 = Suc (ncalls w)"
    by (simp_all add: call_newScan_eq)
  with assms(1) have "ncalls w \<noteq> k" by auto
  with assms(2) r(2) show ?thesis by simp
qed

lemma raised_at_failure:
  assumes "snd (newScan env host k) = Raise msg" and "ncalls w \<le> k"
    and "call_newScan env host w = (Raise e, w1)"
  shows "ncalls w1 \<le> Suc k \<and> (ncalls w1 = Suc k \<longrightarrow> e = msg)"
proof -
  from assms(3) have r: "snd (newScan env host (ncalls w)) = Raise e" "ncalls w1 = Suc (ncalls w)"
    by (simp_all add: call_newScan_eq)
  with assms(1,2) show ?thesis by auto
qed

lemma poll_loop_failure:
  assumes f: "snd (newScan env host k) = Raise msg" and n: "ncalls w \<le> k"
  shows "stops_at host msg k (poll_loop env host st b a d w)"
proof (rule poll_loop_rule [where I = "\<lambda>b a d w. ncalls w \<le> k" and Q = "stops_at host msg k"],
    goal_cases)
  case 1
  from n show ?case .
next
  case (2 b a d w x)
  then show ?case by (simp add: stops_at_def)
next
  case (3 b a d w s)
  then show ?case by (simp add: stops_at_def)
next
  case (4 b a d w s)
  then show ?case by (simp add: stops_at_def)
next
  case (5 b a d w e w1)
  from raised_at_failure [OF f _ 5(3)] 5(1) show ?case
    by (auto simp: stops_at_def failure_result_def ncalls_poll_sleep)
next
  case (6 b a d w d1 w1 x)
  from returned_before_failure [OF f _ 6(3)] 6(1) show ?case
    by (simp add: stops_at_def ncalls_poll_sleep)
next
  case (7 b a d w d1 w1)
  from returned_before_failure [OF f _ 7(3)] 7(1) show ?case
    by (simp add: ncalls_poll_sleep)
next
  case (8 b a d w d1 w1 e w2)
  from returned_before_failure [OF f _ 8(3)] 8(1) have "ncalls w1 \<le> k"
    by (simp add: ncalls_poll_sleep)
  with raised_at_failure [OF f _ 8(5)] show ?case
    by (auto simp: stops_at_def failure_result_def ncalls_backoff_sleep)
next
  case (9 b a d w d1 w1 d2 w2)
  from returned_before_failure [OF f _ 9(3)] 9(1) have "ncalls w1 \<le> k"
    by (simp add: ncalls_poll_sleep)
  with returned_before_failure [OF f _ 9(5)] show ?case
    by (simp add: ncalls_backoff_sleep)
qed

lemma submit_failure:
  assumes f: "snd (newScan env host k) = Raise msg" and n: "ncalls w \<le> k"
  shows "\<exists>res w'. submit env host w = Some (res, w') \<and>
           (case res of
              Finished x \<Rightarrow> stops_at host msg k (x, w')
            | Polling d b \<Rightarrow>
                ncalls w' \<le> k \<or>
                ncalls w' = Suc k \<and> d = error_result host (''newScan retry failed: '' @ msg))"
proof -
  from n obtain j where j: "k = ncalls w + j" by (auto simp: le_iff_add)
  from f have "\<not> limited env (snd (newScan env host (ncalls w + j)))"
    by (simp add: j limited_def)
  from first_answer [OF this] obtain K where
    K: "K \<le> j" "\<forall>i<K. limited env (snd (newScan env host (ncalls w + i)))"
       "\<not> limited env (snd (newScan env host (ncalls w + K)))"
    by blast
  from submit_exact [OF K(2,3)] obtain res w' where
    s: "submit env host w = Some (res, w')" and c: "ncalls w' = ncalls w + K + 1"
    and e: "(case snd (newScan env host (ncalls w + K)) of
              Return d \<Rightarrow>
                (case is_limit_error (py_repr env) d of
                   Inl x \<Rightarrow> res = Finished (Inl x)
                 | Inr l \<Rightarrow> res = Polling d (nth_wait BACKOFF_START K))
            | Raise e \<Rightarrow>
                res = (if K = 0
                       then Finished (Inr (error_result host (''newScan failed: '' @ e)))
                       else Polling (error_result host (''newScan retry failed: '' @ e))
                              (nth_wait BACKOFF_START K)))"
    by blast
  have "case res of
          Finished x \<Rightarrow> stops_at host msg k (x, w')
        | Polling d b \<Rightarrow>
            ncalls w' \<le> k \<or>
            ncalls w' = Suc k \<and> d = error_result host (''newScan retry failed: '' @ msg)"
  proof (cases "K = j")
    case True
    with f j have "snd (newScan env host (ncalls w + K)) = Raise msg" by simp
    with e c True j show ?thesis
      by (auto simp: stops_at_def failure_result_def)
  next
    case False
    with K(1) c j have "ncalls w' \<le> k" by simp
    then show ?thesis
      by (cases res) (simp_all add: stops_at_def)
  qed
  with s show ?thesis by blast
qed

lemma fails_third_raises:
  "snd (newScan (mock (0, Raise ''no cache'') fails_third) ''a.example.com'' 2) =
     Raise ''connection reset''"
  by (simp add: mock_def fails_third_def)

lemma session_failure:
  assumes "snd (newScan env host k) = Raise msg" and "ncalls w \<le> k"
  shows "\<exists>y. scan_until_ready env host w = Some y \<and> stops_at host msg k y"
proof -
  obtain c w0 where cc: "call_cache env host w = (c, w0)"
    by (cases "call_cache env host w")
  then have w0: "ncalls w0 = ncalls w"
    by (simp add: call_cache_eq)
  with assms(2) have n0: "ncalls w0 \<le> k" by simp
  show ?thesis
  proof (cases "cache_ready (cached_value c) = Inr False")
    case False
    with cc have "scan_until_ready env host w = Some (Inl (projl (cache_ready (cached_value c))), w0)
        \<or> scan_until_ready env host w = Some (Inr (cached_value c), w0)"
      by (auto simp: scan_until_ready_def split: sum.splits)
    with n0 show ?thesis by (auto simp: stops_at_def)
  next
    case True
    from submit_failure [OF assms(1) n0] obtain res w1 where
      s: "submit env host w0 = Some (res, w1)"
      and r: "case res of
              Finished x \<Rightarrow> stops_at host msg k (x, w1)
            | Polling d b \<Rightarrow>
                ncalls w1 \<le> k \<or>
                ncalls w1 = Suc k \<and> d = error_result host (''newScan retry failed: '' @ msg)"
      by blast
    show ?thesis
    proof (cases res)
      case (Finished x)
      with s r cc True show ?thesis by (simp add: scan_until_ready_def)
    next
      case (Polling d b)
      with s cc True
      have u: "scan_until_ready env host w = Some (poll_loop env host (now w0) b 0 d w1)"
        by (simp add: scan_until_ready_def)
      from r Polling have "ncalls w1 \<le> k \<or>
          ncalls w1 = Suc k \<and> d = error_result host (''newScan retry failed: '' @ msg)"
        by simp
      then have "stops_at host msg k (poll_loop env host (now w0) b 0 d w1)"
      proof (elim disjE conjE)
        assume "ncalls w1 \<le> k"
        then show ?thesis by (rule poll_loop_failure [OF assms(1)])
      next
        assume a: "ncalls w1 = Suc k" "d = error_result host (''newScan retry failed: '' @ msg)"
        then have "poll_loop env host (now w0) b 0 d w1 = (Inr d, w1)"
          by (simp add: poll_loop_terminal terminal_error_result)
        with a show ?thesis by (simp add: stops_at_def failure_result_def)
      qed
      with u show ?thesis by blast
    qed
  qed
qed

lemma call_before:
  assumes f: "snd (newScan env host k) = Raise msg"
    and p: "\<forall>n. n0 \<le> n \<and> n < k \<longrightarrow> pending env (snd (newScan env host n))"
    and v: "n0 \<le> ncalls v" "ncalls v \<le> k"
    and c: "call_newScan env host v = (r, v1)"
  shows "ncalls v1 = Suc k \<and> r = Raise msg \<or>
         n0 < ncalls v1 \<and> ncalls v1 \<le> k \<and>
         (\<exists>d. r = Return d \<and> pending env (Return d) \<and>
              snd (newScan env host (ncalls v1 - 1)) = Return d)"
proof (cases "ncalls v = k")
  case True
  with c f show ?thesis by (simp add: call_newScan_eq)
next
  case False
  with v have l: "ncalls v < k" by simp
  from c have r: "r = snd (newScan env host (ncalls v))" "ncalls v1 = Suc (ncalls v)"
    by (simp_all add: call_newScan_eq)
  from p v(1) l have "pending env (snd (newScan env host (ncalls v)))" by blast
  then have pr: "pending env r" by (simp add: r(1))
  then obtain d where d: "r = Return d" by (cases r) (simp_all add: pending_def)
  from r(1) d have "snd (newScan env host (ncalls v)) = Return d" by simp
  then have "snd (newScan env host (ncalls v1 - 1)) = Return d" by (simp add: r(2))
  with pr d v(1) l r(2) show ?thesis by simp
qed

lemma pending_before:
  assumes "\<forall>n. n0 \<le> n \<and> n < k \<longrightarrow> pending env (snd (newScan env host n))"
    and "n0 < ncalls v" "ncalls v \<le> k" "snd (newScan env host (ncalls v - 1)) = Return d"
  shows "pending env (Return d)"
proof -
  from assms(2,3) have "n0 \<le> ncalls v - 1 \<and> ncalls v - 1 < k" by arith
  with assms(1) have "pending env (snd (newScan env host (ncalls v - 1)))" by blast
  with assms(4) show ?thesis by simp
qed

lemma poll_loop_reaches:
  assumes f: "snd (newScan env host k) = Raise msg"
    and p: "\<forall>n. n0 \<le> n \<and> n < k \<longrightarrow> pending env (snd (newScan env host n))"
    and i: "n0 < ncalls w" "ncalls w \<le> k" "snd (newScan env host (ncalls w - 1)) = Return d"
  shows "reaches host msg k st (poll_loop env host st b a d w)"
proof (rule poll_loop_rule
    [where I = "\<lambda>b a d w. n0 < ncalls w \<and> ncalls w \<le> k \<and>
                  snd (newScan env host (ncalls w - 1)) = Return d"
       and Q = "reaches host msg k st"], goal_cases)
  case 1
  from i show ?case by simp
next
  case (2 b a d w x)
  then have "pending env (Return d)" using pending_before [OF p] by blast
  with 2 show ?case by (cases d) (simp_all add: pending_def)
next
  case (3 b a d w s)
  then have "pending env (Return d)" using pending_before [OF p] by blast
  with 3 show ?case by (auto simp: pending_def terminal_def)
next
  case (4 b a d w s)
  then have "pending env (Return d)" using pending_before [OF p] by blast
  then obtain d' where "append_warning d = Inr d'"
    by (cases "append_warning d") (simp_all add: pending_def)
  with 4 show ?case
    by (auto simp: reaches_def timed_out_iff MAX_POLL_MINUTES_def)
next
  case (5 b a d w e w1)
  then have "n0 \<le> ncalls (poll_sleep (a + 1) POLL_WAIT (poll_check st w))"
      "ncalls (poll_sleep (a + 1) POLL_WAIT (poll_check st w)) \<le> k"
    by (simp_all add: ncalls_poll_sleep)
  from call_before [OF f p this 5(3)] show ?case
    by (simp add: reaches_def failure_result_def)
next
  case (6 b a d w d1 w1 x)
  then have "n0 \<le> ncalls (poll_sleep (a + 1) POLL_WAIT (poll_check st w))"
      "ncalls (poll_sleep (a + 1) POLL_WAIT (poll_check st w)) \<le> k"
    by (simp_all add: ncalls_poll_sleep)
  from call_before [OF f p this 6(3)] 6(4) show ?case by (simp add: pending_def)
next
  case (7 b a d w d1 w1)
  then have "n0 \<le> ncalls (poll_sleep (a + 1) POLL_WAIT (poll_check st w))"
      "ncalls (poll_sleep (a + 1) POLL_WAIT (poll_check st w)) \<le> k"
    by (simp_all add: ncalls_poll_sleep)
  from call_before [OF f p this 7(3)] show ?case by simp
next
  case (8 b a d w d1 w1 e w2)
  then have "n0 \<le> ncalls (poll_sleep (a + 1) POLL_WAIT (poll_check st w))"
      "ncalls (poll_sleep (a + 1) POLL_WAIT (poll_check st w)) \<le> k"
    by (simp_all add: ncalls_poll_sleep)
  from call_before [OF f p this 8(3)]
  have "n0 \<le> ncalls (backoff_sleep (min b BACKOFF_MAX) w1)"
      "ncalls (backoff_sleep (min b BACKOFF_MAX) w1) \<le> k"
    by (simp_all add: ncalls_backoff_sleep)
  from call_before [OF f p this 8(5)] show ?case
    by (simp add: reaches_def failure_result_def)
next
  case (9 b a d w d1 w1 d2 w2)
  then have "n0 \<le> ncalls (poll_sleep (a + 1) POLL_WAIT (poll_check st w))"
      "ncalls (poll_sleep (a + 1) POLL_WAIT (poll_check st w)) \<le> k"
    by (simp_all add: ncalls_poll_sleep)
  from call_before [OF f p this 9(3)]
  have "n0 \<le> ncalls (backoff_sleep (min b BACKOFF_MAX) w1)"
      "ncalls (backoff_sleep (min b BACKOFF_MAX) w1) \<le> k"
    by (simp_all add: ncalls_backoff_sleep)
  from call_before [OF f p this 9(5)] show ?case by simp
qed

lemma session_reaches:
  assumes f: "snd (newScan env host k) = Raise msg" and n: "ncalls w \<le> k"
    and c: "cache_ready (cached_value (snd (resultsFromCache env host))) = Inr False"
    and p: "\<forall>n. ncalls w \<le> n \<and> n < k \<longrightarrow> pending env (snd (newScan env host n))"
  shows "\<exists>y. scan_until_ready env host w = Some y \<and>
           reaches host msg k (now w + fst (resultsFromCache env host)) y"
proof -
  obtain cv w0 where cc: "call_cache env host w = (cv, w0)"
    by (cases "call_cache env host w")
  then have w0: "ncalls w0 = ncalls w" "now w0 = now w + fst (resultsFromCache env host)"
    and cv: "cv = snd (resultsFromCache env host)"
    by (simp_all add: call_cache_eq)
  from p have p0: "\<forall>n. ncalls w0 \<le> n \<and> n < k \<longrightarrow> pending env (snd (newScan env host n))"
    by (simp add: w0)
  from n obtain j where j: "k = ncalls w0 + j" by (auto simp: le_iff_add w0)
  from f have "\<not> limited env (snd (newScan env host (ncalls w0 + j)))"
    by (simp add: j limited_def)
  from first_answer [OF this] obtain K where
    K: "K \<le> j" "\<forall>i<K. limited env (snd (newScan env host (ncalls w0 + i)))"
       "\<not> limited env (snd (newScan env host (ncalls w0 + K)))"
    by blast
  from submit_exact [OF K(2,3)] obtain res w1 where
    s: "submit env host w0 = Some (res, w1)" and n1: "ncalls w1 = ncalls w0 + K + 1"
    and e: "(case snd (newScan env host (ncalls w0 + K)) of
              Return d \<Rightarrow>
                (case is_limit_error (py_repr env) d of
                   Inl x \<Rightarrow> res = Finished (Inl x)
                 | Inr l \<Rightarrow> res = Polling d (nth_wait BACKOFF_START K))
            | Raise e \<Rightarrow>
                res = (if K = 0
                       then Finished (Inr (error_result host (''newScan failed: '' @ e)))
                       else Polling (error_result host (''newScan retry failed: '' @ e))
                              (nth_wait BACKOFF_START K)))"
    by blast
  show ?thesis
  proof (cases "K = j")
    case True
    with f j have r: "snd (newScan env host (ncalls w0 + K)) = Raise msg" by simp
    from n1 True j have k1: "ncalls w1 = Suc k" by simp
    show ?thesis
    proof (cases "K = 0")
      case True
      with e r have "res = Finished (Inr (error_result host (''newScan failed: '' @ msg)))"
        by simp
      with cc cv c s have "scan_until_ready env host w =
          Some (Inr (error_result host (''newScan failed: '' @ msg)), w1)"
        by (simp add: scan_until_ready_def)
      with k1 show ?thesis by (simp add: reaches_def failure_result_def)
    next
      case False
      with e r have "res = Polling (error_result host (''newScan retry failed: '' @ msg))
          (nth_wait BACKOFF_START K)"
        by simp
      with cc cv c s have "scan_until_ready env host w =
          Some (poll_loop env host (now w0) (nth_wait BACKOFF_START K) 0
                  (error_result host (''newScan retry failed: '' @ msg)) w1)"
        by (simp add: scan_until_ready_def)
      then have "scan_until_ready env host w =
          Some (Inr (error_result host (''newScan retry failed: '' @ msg)), w1)"
        by (simp add: poll_loop_terminal terminal_error_result)
      with k1 show ?thesis by (simp add: reaches_def failure_result_def)
    qed
  next
    case False
    with K(1) j have l: "ncalls w0 + K < k" by simp
    with p0 have "pending env (snd (newScan env host (ncalls w0 + K)))" by simp
    from pending_ready_limited [OF this K(3)] obtain d where
      d: "snd (newScan env host (ncalls w0 + K)) = Return d"
         "is_limit_error (py_repr env) d = Inr False"
      by blast
    with e have "res = Polling d (nth_wait BACKOFF_START K)" by simp
    with cc cv c s have u: "scan_until_ready env host w =
        Some (poll_loop env host (now w0) (nth_wait BACKOFF_START K) 0 d w1)"
      by (simp add: scan_until_ready_def)
    from n1 l d(1) have i: "ncalls w0 < ncalls w1" "ncalls w1 \<le> k"
        "snd (newScan env host (ncalls w1 - 1)) = Return d"
      by simp_all
    from poll_loop_reaches [OF f p0 i] u w0(2) show ?thesis by simp
  qed
qed

lemma run_fails_third:
  "scan_until_ready (mock (0, Raise ''no cache'') fails_third) ''a.example.com'' start =
     Some (Inr (JDict [(''host'', JStr ''a.example.com''), (''status'', JStr ''ERROR''),
                       (''error'', JStr ''poll failed: connection reset'')]),
           \<lparr>now = 90, ncalls = 3,
             trace = [CacheLookup ''a.example.com'', NewScan ''a.example.com'',
                      BackoffSleep 60, NewScan ''a.example.com'',
                      PollCheck 60, PollSleep 1 30, NewScan ''a.example.com'']\<rparr>)"
  by (simp add: run_defs fails_third_def in_progress_def quota_exceeded_def error_result_def
        is_limit_error_def py_or_def)

text \<open>
  C4. If the \<open>k\<close>-th \<open>newScan\<close> call raises, the session returns and makes no call after that
  one; when it made that call (the first call, a retry after a backoff, or a poll, the
  extra call after a mid-poll backoff included) what it returns is a dict with the host,
  the status ERROR and, under \<open>error\<close>, the message of the failure behind the name of the
  phase: the exception does not reach the caller. And the session does make that call
  when the cache has no READY result and every reply before it is pending, unless it
  gave up before, the ceiling reached, with the warning appended to its last answer.
\<close>

theorem remote_failure_is_returned:
  assumes "snd (newScan env host k) = Raise msg" and "ncalls w \<le> k"
  shows "\<exists>r w'. scan_until_ready env host w = Some (r, w') \<and> ncalls w' \<le> Suc k \<and>
           (ncalls w' = Suc k \<longrightarrow>
              r = Inr (JDict [(''host'', JStr host), (''status'', JStr ''ERROR''),
                              (''error'', JStr (''newScan failed: '' @ msg))]) \<or>
              r = Inr (JDict [(''host'', JStr host), (''status'', JStr ''ERROR''),
                              (''error'', JStr (''newScan retry failed: '' @ msg))]) \<or>
              r = Inr (JDict [(''host'', JStr host), (''status'', JStr ''ERROR''),
                              (''error'', JStr (''poll failed: '' @ msg))])) \<and>
           (cache_ready (cached_value (snd (resultsFromCache env host))) = Inr False \<and>
            (\<forall>n. ncalls w \<le> n \<and> n < k \<longrightarrow> pending env (snd (newScan env host n))) \<longrightarrow>
              ncalls w' = Suc k \<or>
              ncalls w' \<le> k \<and>
              now w + fst (resultsFromCache env host) + 60 * MAX_POLL_MINUTES \<le> now w' \<and>
              (\<exists>d0 d'. append_warning d0 = Inr d' \<and> r = Inr d'))"
proof -
  from session_failure [OF assms] obtain r w' where
    s: "scan_until_ready env host w = Some (r, w')" and t: "stops_at host msg k (r, w')"
    by (metis prod.collapse)
  from t have 1: "ncalls w' \<le> Suc k" by (simp add: stops_at_def)
  from t have 2: "ncalls w' = Suc k \<longrightarrow>
      r = Inr (JDict [(''host'', JStr host), (''status'', JStr ''ERROR''),
                      (''error'', JStr (''newScan failed: '' @ msg))]) \<or>
      r = Inr (JDict [(''host'', JStr host), (''status'', JStr ''ERROR''),
                      (''error'', JStr (''newScan retry failed: '' @ msg))]) \<or>
      r = Inr (JDict [(''host'', JStr host), (''status'', JStr ''ERROR''),
                      (''error'', JStr (''poll failed: '' @ msg))])"
    by (simp add: stops_at_def failure_result_def error_result_def)
  have 3: "cache_ready (cached_value (snd (resultsFromCache env host))) = Inr False \<and>
      (\<forall>n. ncalls w \<le> n \<and> n < k \<longrightarrow> pending env (snd (newScan env host n))) \<longrightarrow>
        ncalls w' = Suc k \<or>
        ncalls w' \<le> k \<and>
        now w + fst (resultsFromCache env host) + 60 * MAX_POLL_MINUTES \<le> now w' \<and>
        (\<exists>d0 d'. append_warning d0 = Inr d' \<and> r = Inr d')"
  proof (intro impI, elim conjE)
    assume c: "cache_ready (cached_value (snd (resultsFromCache env host))) = Inr False"
      and p: "\<forall>n. ncalls w \<le> n \<and> n < k \<longrightarrow> pending env (snd (newScan env host n))"
    from session_reaches [OF assms c p] s
    have "reaches host msg k (now w + fst (resultsFromCache env host)) (r, w')"
      by simp
    then show "ncalls w' = Suc k \<or>
        ncalls w' \<le> k \<and>
        now w + fst (resultsFromCache env host) + 60 * MAX_POLL_MINUTES \<le> now w' \<and>
        (\<exists>d0 d'. append_warning d0 = Inr d' \<and> r = Inr d')"
      by (auto simp: reaches_def)
  qed
  from s 1 2 3 show ?thesis by blast
qed

text \<open>
  An instance: the submission is answered quota-exceeded, the retry IN_PROGRESS, and the
  first poll, the third call, raises. The session makes that call and returns the
  synthetic result.
\<close>

theorem remote_failure_is_returned_witness:
  "scan_until_ready (mock (0, Raise ''no cache'') fails_third) ''a.example.com'' start =
     Some (Inr (JDict [(''host'', JStr ''a.example.com''), (''status'', JStr ''ERROR''),
                       (''error'', JStr (''poll failed: '' @ ''connection reset''))]),
           \<lparr>now = 90, ncalls = Suc 2,
             trace = [CacheLookup ''a.example.com'', NewScan ''a.example.com'',
                      BackoffSleep 60, NewScan ''a.example.com'',
                      PollCheck 60, PollSleep 1 30, NewScan ''a.example.com'']\<rparr>)"
proof -
  have "ncalls start \<le> 2" by (simp add: start_def)
  from remote_failure_is_returned [OF fails_third_raises this] obtain r w' where
    s: "scan_until_ready (mock (0, Raise ''no cache'') fails_third) ''a.example.com'' start =
          Some (r, w')"
    and g: "cache_ready (cached_value (snd (resultsFromCache
                (mock (0, Raise ''no cache'') fails_third) ''a.example.com''))) = Inr False \<and>
            (\<forall>n. ncalls start \<le> n \<and> n < 2 \<longrightarrow>
                 pending (mock (0, Raise ''no cache'') fails_third)
                   (snd (newScan (mock (0, Raise ''no cache'') fails_third) ''a.example.com'' n))) \<longrightarrow>
            ncalls w' = Suc 2 \<or>
            ncalls w' \<le> 2 \<and>
            now start +
              fst (resultsFromCache (mock (0, Raise ''no cache'') fails_third) ''a.example.com'') +
              60 * MAX_POLL_MINUTES \<le> now w' \<and>
            (\<exists>d0 d'. append_warning d0 = Inr d' \<and> r = Inr d')"
    by blast
  have "\<forall>n. ncalls start \<le> n \<and> n < 2 \<longrightarrow>
          pending (mock (0, Raise ''no cache'') fails_third)
            (snd (newScan (mock (0, Raise ''no cache'') fails_third) ''a.example.com'' n))"
    by (simp add: mock_def fails_third_def pending_def quota_exceeded_def in_progress_def
          terminal_def is_limit_error_def py_or_def append_warning_def)
  with g no_cache have "ncalls w' = Suc 2 \<or> ncalls w' \<le> 2 \<and>
      now start +
        fst (resultsFromCache (mock (0, Raise ''no cache'') fails_third) ''a.example.com'') +
        60 * MAX_POLL_MINUTES \<le> now w'"
    by blast
  with s run_fails_third show ?thesis by simp
qed

section \<open>Quota-exceeded during polling\<close>

lemma poll_loop_extends:
  "\<exists>evs. trace (snd (poll_loop env host st b a d w)) = trace w @ evs"
proof -
  from poll_loop_adds [OF adds_refl continues_0]
  obtain m where "adds host b w (snd (poll_loop env host st b a d w)) m"
    by blast
  then show ?thesis by (auto simp: adds_def)
qed

lemma poll_loop_first_poll:
  assumes "py_get d ''status'' JNull = Inr s" and "s \<noteq> JStr ''READY''" and "s \<noteq> JStr ''ERROR''"
    and "\<not> timed_out (now w) st"
  shows "\<exists>evs. trace (snd (poll_loop env host st b a d w)) =
           trace w @ [PollCheck (now w - st), PollSleep (a + 1) POLL_WAIT, NewScan host] @ evs"
proof -
  obtain r w1 where c1: "call_newScan env host (poll_sleep (a + 1) POLL_WAIT (poll_check st w)) = (r, w1)"
    by (cases "call_newScan env host (poll_sleep (a + 1) POLL_WAIT (poll_check st w))")
  then have t1: "trace w1 = trace w @ [PollCheck (now w - st), PollSleep (a + 1) POLL_WAIT, NewScan host]"
    by (simp add: call_newScan_eq poll_sleep_def poll_check_def)
  have "\<exists>evs. trace (snd (poll_loop env host st b a d w)) = trace w1 @ evs"
  proof (cases r)
    case (Raise e)
    with assms c1 show ?thesis by (subst poll_loop.simps) simp
  next
    case (Return d1)
    show ?thesis
    proof (cases "is_limit_error (py_repr env) d1")
      case (Inl x)
      with assms c1 Return show ?thesis by (subst poll_loop.simps) simp
    next
      case (Inr l)
      show ?thesis
      proof (cases l)
        case False
        with assms c1 Return Inr
        have "poll_loop env host st b a d w = poll_loop env host st b (a + 1) d1 w1"
          by (subst poll_loop.simps) simp
        with poll_loop_extends [of env host st b "a + 1" d1 w1] show ?thesis by simp
      next
        case True
        obtain r2 w2 where c2: "call_newScan env host (backoff_sleep (min b BACKOFF_MAX) w1) = (r2, w2)"
          by (cases "call_newScan env host (backoff_sleep (min b BACKOFF_MAX) w1)")
        then have t2: "trace w2 = trace w1 @ [BackoffSleep (min b BACKOFF_MAX), NewScan host]"
          by (simp add: call_newScan_eq backoff_sleep_def)
        show ?thesis
        proof (cases r2)
          case (Raise e)
          with assms c1 Return Inr True c2
          have "snd (poll_loop env host st b a d w) = w2"
            by (subst poll_loop.simps) simp
          with t2 show ?thesis by simp
        next
          case d2: (Return d2)
          with assms c1 Return Inr True c2
          have "poll_loop env host st b a d w =
                  poll_loop env host st (min (b * 2) BACKOFF_MAX) (a + 1) d2 w2"
            by (subst poll_loop.simps) simp
          moreover from poll_loop_extends [of env host st "min (b * 2) BACKOFF_MAX" "a + 1" d2 w2]
          obtain evs where
            "trace (snd (poll_loop env host st (min (b * 2) BACKOFF_MAX) (a + 1) d2 w2)) =
               trace w2 @ evs"
            by blast
          ultimately have "trace (snd (poll_loop env host st b a d w)) =
              trace w1 @ ([BackoffSleep (min b BACKOFF_MAX), NewScan host] @ evs)"
            using t2 by simp
          then show ?thesis by blast
        qed
      qed
    qed
  qed
  with t1 show ?thesis by simp
qed

lemma poll_loop_timed_out:
  assumes "py_get d ''status'' JNull = Inr s" and "s \<noteq> JStr ''READY''" and "s \<noteq> JStr ''ERROR''"
    and "timed_out (now w) st"
  shows "poll_loop env host st b a d w =
           (append_warning d, w\<lparr>trace := trace w @ [PollCheck (now w - st)]\<rparr>)"
  using assms by (subst poll_loop.simps) (simp add: poll_check_def)

lemma poll_loop_bad_status:
  assumes "py_get d ''status'' JNull = Inl x"
  shows "poll_loop env host st b a d w = (Inl x, w)"
  using assms by (subst poll_loop.simps) simp

lemma poll_loop_limited_step:
  assumes "py_get data ''status'' JNull = Inr s" and "s \<noteq> JStr ''READY''" and "s \<noteq> JStr ''ERROR''"
    and "\<not> timed_out (now w) started_at"
    and "newScan env host (ncalls w) = (t1, Return d1)"
    and "is_limit_error (py_repr env) d1 = Inr True"
    and "newScan env host (Suc (ncalls w)) = (t2, Return d2)"
  shows "poll_loop env host started_at backoff attempt data w =
           poll_loop env host started_at (min (backoff * 2) BACKOFF_MAX) (attempt + 1) d2
             (w\<lparr>now := now w + POLL_WAIT + t1 + min backoff BACKOFF_MAX + t2,
                ncalls := ncalls w + 2,
                trace := trace w @ [PollCheck (now w - started_at),
                                    PollSleep (attempt + 1) POLL_WAIT, NewScan host,
                                    BackoffSleep (min backoff BACKOFF_MAX), NewScan host]\<rparr>)"
  by (subst poll_loop.simps)
     (simp add: assms call_newScan_def poll_sleep_def backoff_sleep_def poll_check_def)

lemma run_limited_in_poll:
  "poll_loop (mock (0, Raise ''no cache'') limited_in_poll) ''a.example.com'' 0 BACKOFF_START 0
     in_progress after_submission =
   (Inr ready,
    \<lparr>now = 120, ncalls = 4,
      trace = [CacheLookup ''a.example.com'', NewScan ''a.example.com'',
               PollCheck 0, PollSleep 1 30, NewScan ''a.example.com'',
               BackoffSleep 60, NewScan ''a.example.com'',
               PollCheck 90, PollSleep 2 30, NewScan ''a.example.com'']\<rparr>)"
  by (simp add: run_defs after_submission_def limited_in_poll_def quota_exceeded_def ready_def
        in_progress_def is_limit_error_def py_or_def)

text \<open>
  C6. Take the head of the poll loop with a payload that is not terminal and the ceiling
  not reached, a poll call that answers quota-exceeded, and the extra call made after the
  backoff answering \<open>d2\<close>, whatever it is. Up to the extra call the session has logged the
  ceiling test, the poll sleep, the poll call, one backoff sleep and the extra call: two
  calls in all, world \<open>w2\<close>. What follows depends on \<open>d2\<close> alone, as at any head of the loop:
  a terminal \<open>d2\<close> is returned at once; a \<open>d2\<close> without a status field to read raises; an
  unfinished \<open>d2\<close>, quota-exceeded again or not, meets the ceiling test against the same
  \<open>started_at\<close> and is returned with the warning when the ceiling is reached, and
  otherwise is followed by the poll sleep numbered \<open>attempt + 2\<close> and an ordinary poll
  call, with no second backoff in between.
\<close>

theorem mid_poll_limit_one_extra_call:
  assumes "py_get data ''status'' JNull = Inr s" and "s \<noteq> JStr ''READY''" and "s \<noteq> JStr ''ERROR''"
    and "\<not> timed_out (now w) started_at"
    and "newScan env host (ncalls w) = (t1, Return d1)"
    and "is_limit_error (py_repr env) d1 = Inr True"
    and "newScan env host (Suc (ncalls w)) = (t2, Return d2)"
    and "w2 = w\<lparr>now := now w + POLL_WAIT + t1 + min backoff BACKOFF_MAX + t2,
                 ncalls := ncalls w + 2,
                 trace := trace w @ [PollCheck (now w - started_at),
                                     PollSleep (attempt + 1) POLL_WAIT, NewScan host,
                                     BackoffSleep (min backoff BACKOFF_MAX), NewScan host]\<rparr>"
  shows "(terminal d2 \<longrightarrow>
            poll_loop env host started_at backoff attempt data w = (Inr d2, w2)) \<and>
         (\<forall>x. py_get d2 ''status'' JNull = Inl x \<longrightarrow>
            poll_loop env host started_at backoff attempt data w = (Inl x, w2)) \<and>
         (unfinished d2 \<and> timed_out (now w2) started_at \<longrightarrow>
            poll_loop env host started_at backoff attempt data w =
              (append_warning d2, w2\<lparr>trace := trace w2 @ [PollCheck (now w2 - started_at)]\<rparr>)) \<and>
         (unfinished d2 \<and> \<not> timed_out (now w2) started_at \<longrightarrow>
            (\<exists>evs. trace (snd (poll_loop env host started_at backoff attempt data w)) =
                     trace w2 @ [PollCheck (now w2 - started_at),
                                 PollSleep (attempt + 2) POLL_WAIT, NewScan host] @ evs))"
proof -
  have step: "poll_loop env host started_at backoff attempt data w =
      poll_loop env host started_at (min (backoff * 2) BACKOFF_MAX) (attempt + 1) d2 w2"
    unfolding assms(8) by (rule poll_loop_limited_step [OF assms(1-7)])
  have 1: "terminal d2 \<longrightarrow>
      poll_loop env host started_at backoff attempt data w = (Inr d2, w2)"
    by (simp add: step poll_loop_terminal)
  have 2: "\<forall>x. py_get d2 ''status'' JNull = Inl x \<longrightarrow>
      poll_loop env host started_at backoff attempt data w = (Inl x, w2)"
    by (simp add: step poll_loop_bad_status)
  have 3: "unfinished d2 \<and> timed_out (now w2) started_at \<longrightarrow>
      poll_loop env host started_at backoff attempt data w =
        (append_warning d2, w2\<lparr>trace := trace w2 @ [PollCheck (now w2 - started_at)]\<rparr>)"
  proof (intro impI, elim conjE)
    assume "unfinished d2" and t: "timed_out (now w2) started_at"
    then obtain s2 where "py_get d2 ''status'' JNull = Inr s2" "s2 \<noteq> JStr ''READY''"
        "s2 \<noteq> JStr ''ERROR''"
      by (auto simp: unfinished_def split: sum.splits)
    from poll_loop_timed_out [OF this t] show
      "poll_loop env host started_at backoff attempt data w =
         (append_warning d2, w2\<lparr>trace := trace w2 @ [PollCheck (now w2 - started_at)]\<rparr>)"
      by (simp add: step)
  qed
  have 4: "unfinished d2 \<and> \<not> timed_out (now w2) started_at \<longrightarrow>
      (\<exists>evs. trace (snd (poll_loop env host started_at backoff attempt data w)) =
               trace w2 @ [PollCheck (now w2 - started_at),
                           PollSleep (attempt + 2) POLL_WAIT, NewScan host] @ evs)"
  proof (intro impI, elim conjE)
    assume "unfinished d2" and t: "\<not> timed_out (now w2) started_at"
    then obtain s2 where "py_get d2 ''status'' JNull = Inr s2" "s2 \<noteq> JStr ''READY''"
        "s2 \<noteq> JStr ''ERROR''"
      by (auto simp: unfinished_def split: sum.splits)
    from poll_loop_first_poll [OF this t, of env host "min (backoff * 2) BACKOFF_MAX" "attempt + 1"]
    show "\<exists>evs. trace (snd (poll_loop env host started_at backoff attempt data w)) =
               trace w2 @ [PollCheck (now w2 - started_at),
                           PollSleep (attempt + 2) POLL_WAIT, NewScan host] @ evs"
      by (simp add: step)
  qed
  from 1 2 3 4 show ?thesis by blast
qed

text \<open>
  An instance where the extra call answers quota-exceeded again, 90 seconds into the
  session: no second backoff follows, the loop tests the ceiling, sleeps the poll wait
  (poll 2) and calls once more; that call answers READY.
\<close>

theorem mid_poll_limit_one_extra_call_witness:
  "(\<exists>evs. trace (snd (poll_loop (mock (0, Raise ''no cache'') limited_in_poll) ''a.example.com''
                        0 BACKOFF_START 0 in_progress after_submission)) =
            [CacheLookup ''a.example.com'', NewScan ''a.example.com'',
             PollCheck 0, PollSleep 1 30, NewScan ''a.example.com'',
             BackoffSleep 60, NewScan ''a.example.com''] @
            [PollCheck 90, PollSleep 2 30, NewScan ''a.example.com''] @ evs) \<and>
   poll_loop (mock (0, Raise ''no cache'') limited_in_poll) ''a.example.com'' 0 BACKOFF_START 0
     in_progress after_submission =
   (Inr ready,
    \<lparr>now = 120, ncalls = 4,
      trace = [CacheLookup ''a.example.com'', NewScan ''a.example.com'',
               PollCheck 0, PollSleep 1 30, NewScan ''a.example.com'',
               BackoffSleep 60, NewScan ''a.example.com'',
               PollCheck 90, PollSleep 2 30, NewScan ''a.example.com'']\<rparr>)"
proof -
  define w2 where "w2 = \<lparr>now = 90, ncalls = 3,
    trace = [CacheLookup ''a.example.com'', NewScan ''a.example.com'',
             PollCheck 0, PollSleep 1 30, NewScan ''a.example.com'',
             BackoffSleep 60, NewScan ''a.example.com'']\<rparr>"
  have u: "unfinished quota_exceeded \<and> \<not> timed_out (now w2) 0"
    by (simp add: unfinished_def quota_exceeded_def timed_out_iff w2_def)
  have "unfinished quota_exceeded \<and> \<not> timed_out (now w2) 0 \<longrightarrow>
      (\<exists>evs. trace (snd (poll_loop (mock (0, Raise ''no cache'') limited_in_poll) ''a.example.com''
                           0 BACKOFF_START 0 in_progress after_submission)) =
               trace w2 @ [PollCheck (now w2 - 0), PollSleep (0 + 2) POLL_WAIT,
                           NewScan ''a.example.com''] @ evs)"
    using mid_poll_limit_one_extra_call
      [where s = "JStr ''IN_PROGRESS''" and ?d1.0 = quota_exceeded and ?d2.0 = quota_exceeded
         and ?t1.0 = 0 and ?t2.0 = 0 and data = in_progress and w = after_submission
         and started_at = 0 and env = "mock (0, Raise ''no cache'') limited_in_poll"
         and host = "''a.example.com''" and backoff = BACKOFF_START and attempt = 0
         and ?w2.0 = w2]
    by (simp add: in_progress_def timed_out_iff after_submission_def mock_def
          limited_in_poll_def limited_quota w2_def BACKOFF_START_def BACKOFF_MAX_def
          POLL_WAIT_def)
  with u have "\<exists>evs. trace (snd (poll_loop (mock (0, Raise ''no cache'') limited_in_poll)
                           ''a.example.com'' 0 BACKOFF_START 0 in_progress after_submission)) =
               trace w2 @ [PollCheck (now w2 - 0), PollSleep (0 + 2) POLL_WAIT,
                           NewScan ''a.example.com''] @ evs"
    by blast
  then have "\<exists>evs. trace (snd (poll_loop (mock (0, Raise ''no cache'') limited_in_poll)
                           ''a.example.com'' 0 BACKOFF_START 0 in_progress after_submission)) =
            [CacheLookup ''a.example.com'', NewScan ''a.example.com'',
             PollCheck 0, PollSleep 1 30, NewScan ''a.example.com'',
             BackoffSleep 60, NewScan ''a.example.com''] @
            [PollCheck 90, PollSleep 2 30, NewScan ''a.example.com''] @ evs"
    by (simp add: w2_def POLL_WAIT_def numeral_2_eq_2)
  with run_limited_in_poll show ?thesis by blast
qed

section \<open>The summary row\<close>

text \<open>
  C5, where the code falls short of it. A payload whose \<open>suites\<close> field is a list, not a
  dict, makes the body of \<open>extract_summary\<close> raise; the \<^verbatim>\<open>except\<close> branch (line 124, under
  the comment "Keep columns aligned") then returns the host and 13 placeholders, 14
  columns, where the header row and the "No HTTPS" row of main have 15.
\<close>

theorem degraded_row_is_short:
  "extract_summary env suites_as_list = Inr (JStr ''a.example.com'' # replicate 13 NA) \<and>
   length (JStr ''a.example.com'' # replicate 13 NA) = 14 \<and> length csv_header = 15"
  by (simp add: extract_summary_def summary_row_def suites_as_list_def and_then_def NA_def
        py_or_def position_def pretty_ts_def csv_header_def no_attribute_def)

section \<open>Hosts without HTTPS\<close>

lemma scan_hosts_Cons_cases:
  assumes "scan_hosts env (sub # subs) out w = Some (res, out', w')"
  obtains (skipped) "\<not> has_https env sub 443 4"
      "scan_hosts env subs
         (out\<lparr>csv_rows := csv_rows out @ [no_https_row sub],
              txt_sections := txt_sections out @ [(sub, HttpsNotFound)]\<rparr>) w = Some (res, out', w')"
  | (failed) r x where "has_https env sub 443 4" "scan_until_ready env sub w = Some (r, w')"
      "res = Some x" "out' = out"
  | (scanned) data w1 summary where "has_https env sub 443 4"
      "scan_until_ready env sub w = Some (Inr data, w1)"
      "scan_hosts env subs
         (out\<lparr>csv_rows := csv_rows out @ [summary],
              txt_sections := txt_sections out @ [(sub, FullJson data)],
              json_reports := json_reports out @ [(sub @ ''.json'', data)]\<rparr>) w1 =
         Some (res, out', w')"
proof (cases "has_https env sub 443 4")
  case False
  with assms skipped show ?thesis by simp
next
  case True
  with assms obtain r w1 where s: "scan_until_ready env sub w = Some (r, w1)"
    by (auto split: option.splits)
  show ?thesis
  proof (cases r)
    case (Inl x)
    with assms True s have e: "res = Some x" "out' = out" "w1 = w'" by auto
    from s e(3) have "scan_until_ready env sub w = Some (r, w')" by simp
    from failed [OF True this e(1,2)] show ?thesis .
  next
    case (Inr data)
    show ?thesis
    proof (cases "extract_summary env data")
      case (Inl x)
      with assms True s Inr have e: "res = Some x" "out' = out" "w1 = w'" by auto
      from s e(3) have "scan_until_ready env sub w = Some (r, w')" by simp
      from failed [OF True this e(1,2)] show ?thesis .
    next
      case summary: (Inr summary)
      with assms True s Inr have
        "scan_hosts env subs
           (out\<lparr>csv_rows := csv_rows out @ [summary],
                txt_sections := txt_sections out @ [(sub, FullJson data)],
                json_reports := json_reports out @ [(sub @ ''.json'', data)]\<rparr>) w1 =
           Some (res, out', w')"
        by simp
      moreover from s Inr have "scan_until_ready env sub w = Some (Inr data, w1)" by simp
      ultimately show ?thesis using scanned [OF True] by blast
    qed
  qed
qed

lemma only_for_session:
  assumes "scan_until_ready env sub w = Some (r, w1)" and "has_https env sub 443 4"
  shows "\<exists>evs. trace w1 = trace w @ evs \<and> only_for env (sub # subs) evs"
proof -
  from session_adds [OF assms(1)] obtain evs where
    "trace w1 = trace w @ evs" "\<forall>e\<in>set evs. remote_host e \<in> {None, Some sub}"
    by (auto simp: adds_def)
  with assms(2) show ?thesis
    by (intro exI [of _ evs]) (auto simp: only_for_def)
qed

lemma only_for_append:
  "only_for env (sub # subs) evs1 \<Longrightarrow> only_for env subs evs2 \<Longrightarrow>
   only_for env (sub # subs) (evs1 @ evs2)"
  by (auto simp: only_for_def)

lemma scan_hosts_trace:
  assumes "scan_hosts env subs out w = Some (res, out', w')"
  shows "\<exists>evs. trace w' = trace w @ evs \<and> only_for env subs evs"
  using assms
proof (induction subs arbitrary: out w)
  case Nil
  then show ?case by (simp add: only_for_def)
next
  case (Cons sub subs)
  from Cons.prems show ?case
  proof (cases rule: scan_hosts_Cons_cases)
    case skipped
    from Cons.IH [OF skipped(2)] obtain evs where
      "trace w' = trace w @ evs" "only_for env subs evs" by blast
    with only_for_append [of env sub subs "[]" evs] show ?thesis
      by (auto simp: only_for_def)
  next
    case (failed r x)
    from only_for_session [OF failed(2,1)] show ?thesis .
  next
    case (scanned data w1 summary)
    from only_for_session [OF scanned(2,1), of subs] obtain evs1 where
      1: "trace w1 = trace w @ evs1" "only_for env (sub # subs) evs1" by blast
    from Cons.IH [OF scanned(3)] obtain evs2 where
      2: "trace w' = trace w1 @ evs2" "only_for env subs evs2" by blast
    from 1 2 only_for_append [OF 1(2) 2(2)] show ?thesis
      by (intro exI [of _ "evs1 @ evs2"]) simp
  qed
qed

lemma scan_hosts_keeps_rows:
  assumes "scan_hosts env subs out w = Some (res, out', w')"
  shows "set (csv_rows out) \<subseteq> set (csv_rows out')"
  using assms
proof (induction subs arbitrary: out w)
  case Nil
  then show ?case by simp
next
  case (Cons sub subs)
  from Cons.prems show ?case
  proof (cases rule: scan_hosts_Cons_cases)
    case skipped
    from Cons.IH [OF skipped(2)] show ?thesis by simp
  next
    case (failed r x)
    then show ?thesis by simp
  next
    case (scanned data w1 summary)
    from Cons.IH [OF scanned(3)] show ?thesis by simp
  qed
qed

lemma scan_hosts_append:
  assumes "scan_hosts env pre out w = Some (None, out1, w1)"
  shows "scan_hosts env (pre @ subs) out w = scan_hosts env subs out1 w1"
  using assms
proof (induction pre arbitrary: out w)
  case Nil
  then show ?case by simp
next
  case (Cons s pre)
  show ?case
  proof (cases "has_https env s 443 4")
    case False
    with Cons.prems have
      "scan_hosts env pre
         (out\<lparr>csv_rows := csv_rows out @ [no_https_row s],
              txt_sections := txt_sections out @ [(s, HttpsNotFound)]\<rparr>) w = Some (None, out1, w1)"
      by simp
    from Cons.IH [OF this] False show ?thesis by simp
  next
    case True
    with Cons.prems obtain data w' summary where
      d: "scan_until_ready env s w = Some (Inr data, w')" "extract_summary env data = Inr summary"
        "scan_hosts env pre
           (out\<lparr>csv_rows := csv_rows out @ [summary],
                txt_sections := txt_sections out @ [(s, FullJson data)],
                json_reports := json_reports out @ [(s @ ''.json'', data)]\<rparr>) w' =
         Some (None, out1, w1)"
      by (auto split: option.splits sum.splits)
    from Cons.IH [OF d(3)] True d(1,2) show ?thesis by simp
  qed
qed

lemma read_sample: "read_subdomains sample_lines = [''b.example.com'', ''a.example.com'']"
  by (simp add: read_subdomains_def sample_lines_def strip_def is_space_def startswith_def)

lemma summary_ready:
  "extract_summary (mock c f) ready =
     Inr (map JStr [''a.example.com'', ''N/A'', ''N/A'', ''READY'', ''N/A'', ''N/A'', ''N/A'',
                   ''N/A'', ''N/A'', ''N/A'', ''1970-01-01 00:00:00'', ''1970-01-01 00:00:00'',
                   ''N/A'', ''N/A'', ''N/A''])"
  by (simp add: extract_summary_def summary_row_def ready_def and_then_def NA_def py_or_def
        position_def pretty_ts_def mock_def)

lemma session_ready_at_once:
  "scan_until_ready (mock (0, Raise ''no cache'') ready_at_once) ''a.example.com'' start =
     Some (Inr ready, \<lparr>now = 2, ncalls = 1,
                        trace = [CacheLookup ''a.example.com'', NewScan ''a.example.com'']\<rparr>)"
  by (simp add: run_defs ready_at_once_def) (simp add: ready_def)

lemma no_https_b: "\<not> has_https (mock c f) ''b.example.com'' 443 4"
  by (simp add: has_https_def mock_def)

lemma https_a: "has_https (mock c f) ''a.example.com'' 443 4"
  by (simp add: has_https_def mock_def)

lemma run_main:
  "main (mock (0, Raise ''no cache'') ready_at_once) sample_lines start =
     Some (None, sample_files,
           \<lparr>now = 2, ncalls = 1,
             trace = [CacheLookup ''a.example.com'', NewScan ''a.example.com'']\<rparr>)"
  by (simp add: main_def read_sample no_https_b https_a session_ready_at_once summary_ready
        sample_files_def)

lemma read_reachable_first:
  "read_subdomains reachable_first = [''a.example.com'', ''b.example.com'']"
  by (simp add: read_subdomains_def reachable_first_def strip_def is_space_def startswith_def)

lemma session_answers_null:
  "scan_until_ready (mock (0, Raise ''no cache'') answers_null) ''a.example.com'' start =
     Some (Inl (AttributeError ([CHR 0x27] @ ''NoneType'' @ [CHR 0x27] @
                  '' object has no attribute '' @ [CHR 0x27] @ ''get'' @ [CHR 0x27])),
           \<lparr>now = 0, ncalls = 1,
             trace = [CacheLookup ''a.example.com'', NewScan ''a.example.com'']\<rparr>)"
  by (simp add: scan_until_ready_def call_cache_def mock_def start_def cached_value_def
        cache_ready_def submit_def call_newScan_def answers_null_def is_limit_error_def
        no_attribute_def quoted_def)

lemma session_always_limited:
  "scan_until_ready (mock (0, Raise ''no cache'') always_limited) ''a.example.com'' start = None"
proof -
  have "limit_loop (mock (0, Raise ''no cache'') always_limited) ''a.example.com'' b w = None" for b w
    by (rule limit_loop_never [OF all_limited])
  then show ?thesis
    by (simp add: scan_until_ready_def call_cache_def cached_value_def cache_ready_def submit_def
          call_newScan_def mock_def always_limited_def limited_quota)
qed

lemma scan_hosts_Nil:
  "scan_hosts env [] \<lparr>csv_rows = [csv_header], txt_sections = [], json_reports = []\<rparr> w =
     Some (None, \<lparr>csv_rows = [csv_header], txt_sections = [], json_reports = []\<rparr>, w)"
  by simp

lemma read_sample_split:
  "read_subdomains sample_lines = [] @ ''b.example.com'' # [''a.example.com'']"
  by (simp add: read_sample)

lemma refused_b:
  "create_connection (mock c f) ''b.example.com'' 443 4 = ConnectError ''refused''"
  by (simp add: mock_def)

text \<open>
  C10, as the code has it. \<open>has_https\<close> is true exactly when the connection attempt (to the
  port and within the timeout it is given; main gives 443 and 4 seconds) succeeds, and
  false, never an exception, when it fails, whatever the error. For a host \<open>sub\<close> of the
  input that the loop of main reaches (the hosts before it have been dealt with, none of
  their sessions hanging or ending the program on an exception) and to which the
  connection fails: main goes on to the hosts after it in the world it was in, so
  without a remote call or a sleep for \<open>sub\<close>, having written the row of \<open>sub\<close>, N/A,
  No HTTPS and twelve times N/A, and the section of the text file; and whatever the run
  returns, that row is among the rows written and no cache lookup and no \<open>newScan\<close> call
  for \<open>sub\<close> is among its events.
\<close>

theorem no_https_never_assessed:
  assumes "read_subdomains file_lines = pre @ sub # rest"
    and "scan_hosts env pre \<lparr>csv_rows = [csv_header], txt_sections = [], json_reports = []\<rparr> w =
           Some (None, out1, w1)"
    and "create_connection env sub 443 4 = ConnectError e"
  shows "has_https env sub 443 4 = False \<and>
         has_https env host port timeout = (create_connection env host port timeout = Connected) \<and>
         main env file_lines w =
           scan_hosts env rest
             (out1\<lparr>csv_rows := csv_rows out1 @
                      [[JStr sub, JStr ''N/A'', JStr ''No HTTPS'', JStr ''N/A'', JStr ''N/A'', JStr ''N/A'',
                   JStr ''N/A'', JStr ''N/A'', JStr ''N/A'', JStr ''N/A'', JStr ''N/A'', JStr ''N/A'',
                   JStr ''N/A'', JStr ''N/A'', JStr ''N/A'']],
                   txt_sections := txt_sections out1 @ [(sub, HttpsNotFound)]\<rparr>) w1 \<and>
         (\<forall>res out' w'. main env file_lines w = Some (res, out', w') \<longrightarrow>
            [JStr sub, JStr ''N/A'', JStr ''No HTTPS'', JStr ''N/A'', JStr ''N/A'', JStr ''N/A'',
             JStr ''N/A'', JStr ''N/A'', JStr ''N/A'', JStr ''N/A'', JStr ''N/A'', JStr ''N/A'',
             JStr ''N/A'', JStr ''N/A'', JStr ''N/A'']
              \<in> set (csv_rows out') \<and>
            (\<exists>evs. trace w' = trace w @ evs \<and>
                   CacheLookup sub \<notin> set evs \<and> NewScan sub \<notin> set evs))"
proof -
  have 2: "has_https env host port timeout = (create_connection env host port timeout = Connected)"
    by (simp add: has_https_def split: connection.splits)
  from assms(3) have 1: "has_https env sub 443 4 = False"
    by (simp add: has_https_def)
  from scan_hosts_append [OF assms(2), of "sub # rest"] assms(1) 1
  have 3: "main env file_lines w =
      scan_hosts env rest
        (out1\<lparr>csv_rows := csv_rows out1 @
                 [[JStr sub, JStr ''N/A'', JStr ''No HTTPS'', JStr ''N/A'', JStr ''N/A'', JStr ''N/A'',
              JStr ''N/A'', JStr ''N/A'', JStr ''N/A'', JStr ''N/A'', JStr ''N/A'', JStr ''N/A'',
              JStr ''N/A'', JStr ''N/A'', JStr ''N/A'']],
              txt_sections := txt_sections out1 @ [(sub, HttpsNotFound)]\<rparr>) w1"
    by (simp add: main_def no_https_row_def)
  have 4: "[JStr sub, JStr ''N/A'', JStr ''No HTTPS'', JStr ''N/A'', JStr ''N/A'', JStr ''N/A'',
         JStr ''N/A'', JStr ''N/A'', JStr ''N/A'', JStr ''N/A'', JStr ''N/A'', JStr ''N/A'',
         JStr ''N/A'', JStr ''N/A'', JStr ''N/A'']
        \<in> set (csv_rows out') \<and>
      (\<exists>evs. trace w' = trace w @ evs \<and> CacheLookup sub \<notin> set evs \<and> NewScan sub \<notin> set evs)"
    if m: "main env file_lines w = Some (res, out', w')" for res out' w'
  proof -
    from m scan_hosts_trace obtain evs where
      e: "trace w' = trace w @ evs" "only_for env (read_subdomains file_lines) evs"
      unfolding main_def by blast
    from e(2) 1 have "CacheLookup sub \<notin> set evs" "NewScan sub \<notin> set evs"
      by (auto simp: only_for_def)
    with e(1) have a: "\<exists>evs. trace w' = trace w @ evs \<and>
        CacheLookup sub \<notin> set evs \<and> NewScan sub \<notin> set evs"
      by blast
    from m 3 have "scan_hosts env rest
        (out1\<lparr>csv_rows := csv_rows out1 @
                 [[JStr sub, JStr ''N/A'', JStr ''No HTTPS'', JStr ''N/A'', JStr ''N/A'', JStr ''N/A'',
              JStr ''N/A'', JStr ''N/A'', JStr ''N/A'', JStr ''N/A'', JStr ''N/A'', JStr ''N/A'',
              JStr ''N/A'', JStr ''N/A'', JStr ''N/A'']],
              txt_sections := txt_sections out1 @ [(sub, HttpsNotFound)]\<rparr>) w1 =
        Some (res, out', w')"
      by simp
    from scan_hosts_keeps_rows [OF this] have
      "[JStr sub, JStr ''N/A'', JStr ''No HTTPS'', JStr ''N/A'', JStr ''N/A'', JStr ''N/A'',
        JStr ''N/A'', JStr ''N/A'', JStr ''N/A'', JStr ''N/A'', JStr ''N/A'', JStr ''N/A'',
        JStr ''N/A'', JStr ''N/A'', JStr ''N/A'']
         \<in> set (csv_rows out')"
      by auto
    with a show ?thesis by blast
  qed
  from 1 2 3 4 show ?thesis by blast
qed

text \<open>
  An instance: of the hosts b.example.com and a.example.com the first refuses the
  connection. Its row and its section are written before the session of a.example.com
  starts, in the initial world, and the run, which ends after one cache lookup and one
  call for a.example.com, has the row in its CSV file.
\<close>

theorem no_https_never_assessed_witness:
  "has_https (mock (0, Raise ''no cache'') ready_at_once) ''b.example.com'' 443 4 = False \<and>
   main (mock (0, Raise ''no cache'') ready_at_once) sample_lines start =
     scan_hosts (mock (0, Raise ''no cache'') ready_at_once) [''a.example.com'']
       \<lparr>csv_rows = [csv_header,
                    [JStr ''b.example.com'', JStr ''N/A'', JStr ''No HTTPS'', JStr ''N/A'', JStr ''N/A'', JStr ''N/A'',
                     JStr ''N/A'', JStr ''N/A'', JStr ''N/A'', JStr ''N/A'', JStr ''N/A'', JStr ''N/A'',
                     JStr ''N/A'', JStr ''N/A'', JStr ''N/A'']],
         txt_sections = [(''b.example.com'', HttpsNotFound)], json_reports = []\<rparr> start \<and>
   [JStr ''b.example.com'', JStr ''N/A'', JStr ''No HTTPS'', JStr ''N/A'', JStr ''N/A'', JStr ''N/A'',
    JStr ''N/A'', JStr ''N/A'', JStr ''N/A'', JStr ''N/A'', JStr ''N/A'', JStr ''N/A'',
    JStr ''N/A'', JStr ''N/A'', JStr ''N/A'']
     \<in> set (csv_rows sample_files) \<and>
   (\<exists>evs. trace \<lparr>now = 2, ncalls = 1,
                  trace = [CacheLookup ''a.example.com'', NewScan ''a.example.com'']\<rparr> =
            trace start @ evs \<and>
          CacheLookup ''b.example.com'' \<notin> set evs \<and> NewScan ''b.example.com'' \<notin> set evs)"
proof -
  note t = no_https_never_assessed
    [where w = start and host = "''b.example.com''" and port = 443 and timeout = 4
       and env = "mock (0, Raise ''no cache'') ready_at_once",
     OF read_sample_split scan_hosts_Nil refused_b]
  from t have 1:
    "has_https (mock (0, Raise ''no cache'') ready_at_once) ''b.example.com'' 443 4 = False"
    by blast
  from t have 2: "main (mock (0, Raise ''no cache'') ready_at_once) sample_lines start =
     scan_hosts (mock (0, Raise ''no cache'') ready_at_once) [''a.example.com'']
       \<lparr>csv_rows = [csv_header,
                    [JStr ''b.example.com'', JStr ''N/A'', JStr ''No HTTPS'', JStr ''N/A'', JStr ''N/A'', JStr ''N/A'',
                     JStr ''N/A'', JStr ''N/A'', JStr ''N/A'', JStr ''N/A'', JStr ''N/A'', JStr ''N/A'',
                     JStr ''N/A'', JStr ''N/A'', JStr ''N/A'']],
         txt_sections = [(''b.example.com'', HttpsNotFound)], json_reports = []\<rparr> start"
    by simp
  from t run_main have 3:
    "[JStr ''b.example.com'', JStr ''N/A'', JStr ''No HTTPS'', JStr ''N/A'', JStr ''N/A'', JStr ''N/A'',
      JStr ''N/A'', JStr ''N/A'', JStr ''N/A'', JStr ''N/A'', JStr ''N/A'', JStr ''N/A'',
      JStr ''N/A'', JStr ''N/A'', JStr ''N/A'']
       \<in> set (csv_rows sample_files) \<and>
     (\<exists>evs. trace \<lparr>now = 2, ncalls = 1,
                    trace = [CacheLookup ''a.example.com'', NewScan ''a.example.com'']\<rparr> =
              trace start @ evs \<and>
            CacheLookup ''b.example.com'' \<notin> set evs \<and> NewScan ''b.example.com'' \<notin> set evs)"
    by blast
  from 1 2 3 show ?thesis by blast
qed

text \<open>
  The claim as stated fails for a host the loop never reaches. With a.example.com, which
  accepts the connection, before b.example.com, which refuses it: when the service
  answers \<^verbatim>\<open>null\<close>, the session of a.example.com raises (line 155 is outside the \<^verbatim>\<open>try\<close>)
  and the program ends with the header row alone; when the service answers
  quota-exceeded for ever, the session of a.example.com never returns. In both runs
  b.example.com gets no row.
\<close>

theorem unreached_host_counterexample:
  "read_subdomains reachable_first = [''a.example.com'', ''b.example.com''] \<and>
   \<not> has_https (mock (0, Raise ''no cache'') answers_null) ''b.example.com'' 443 4 \<and>
   main (mock (0, Raise ''no cache'') answers_null) reachable_first start =
     Some (Some (AttributeError ([CHR 0x27] @ ''NoneType'' @ [CHR 0x27] @
                   '' object has no attribute '' @ [CHR 0x27] @ ''get'' @ [CHR 0x27])),
           \<lparr>csv_rows = [csv_header], txt_sections = [], json_reports = []\<rparr>,
           \<lparr>now = 0, ncalls = 1,
             trace = [CacheLookup ''a.example.com'', NewScan ''a.example.com'']\<rparr>) \<and>
   no_https_row ''b.example.com'' \<notin> set [csv_header] \<and>
   \<not> has_https (mock (0, Raise ''no cache'') always_limited) ''b.example.com'' 443 4 \<and>
   main (mock (0, Raise ''no cache'') always_limited) reachable_first start = None"
  by (simp add: read_reachable_first main_def no_https_b https_a session_answers_null
        session_always_limited no_https_row_def csv_header_def)

section \<open>The cache check\<close>

text \<open>
  C8. If the cache lookup returns a result whose status is READY, the function returns
  that result at once: the world it leaves differs from the one it found by the lookup
  alone, so no \<open>newScan\<close> call was made and nothing slept; the session clock and the
  backoff are only set up after this return.
\<close>

theorem cache_ready_returns_cached:
  assumes "resultsFromCache env host = (t, Return (JDict kvs))"
    and "map_of kvs ''status'' = Some (JStr ''READY'')"
  shows "scan_until_ready env host w =
           Some (Inr (JDict kvs),
                 w\<lparr>now := now w + t, trace := trace w @ [CacheLookup host]\<rparr>)"
proof -
  from assms(2) have "kvs \<noteq> []" by auto
  with assms show ?thesis
    by (simp add: scan_until_ready_def call_cache_def cached_value_def cache_ready_def)
qed

theorem cache_ready_returns_cached_witness:
  "scan_until_ready (mock (1, Return ready) ready_at_once) ''a.example.com'' start =
     Some (Inr ready, \<lparr>now = 1, ncalls = 0, trace = [CacheLookup ''a.example.com'']\<rparr>)"
  using cache_ready_returns_cached [of "mock (1, Return ready) ready_at_once"
      "''a.example.com''" 1 "[(''host'', JStr ''a.example.com''), (''status'', JStr ''READY'')]"
      start]
  by (simp add: mock_def ready_def start_def)

section \<open>READY on the first submit\<close>

text \<open>
  C9. If the cache lookup is not READY and the first \<open>newScan\<close> call returns a response
  that is READY and not quota-exceeded, the function makes that one call, sleeps not at
  all and returns the response: after the cache lookup the trace has the single call.
\<close>

theorem ready_on_first_submit:
  assumes "resultsFromCache env host = (tc, c)"
    and "cache_ready (cached_value c) = Inr False"
    and "newScan env host (ncalls w) = (t, Return d)"
    and "is_limit_error (py_repr env) d = Inr False"
    and "py_get d ''status'' JNull = Inr (JStr ''READY'')"
  shows "scan_until_ready env host w =
           Some (Inr d, w\<lparr>now := now w + tc + t, ncalls := Suc (ncalls w),
                            trace := trace w @ [CacheLookup host, NewScan host]\<rparr>)"
  using assms
  by (simp add: scan_until_ready_def call_cache_def submit_def call_newScan_def poll_loop.simps)

theorem ready_on_first_submit_witness:
  "scan_until_ready (mock (1, Raise ''no cache'') ready_at_once) ''a.example.com'' start =
     Some (Inr ready, \<lparr>now = 3, ncalls = 1,
                      trace = [CacheLookup ''a.example.com'', NewScan ''a.example.com'']\<rparr>)"
  using ready_on_first_submit [of "mock (1, Raise ''no cache'') ready_at_once"
      "''a.example.com''" 1 "Raise ''no cache''" start 2 ready]
  by (simp add: mock_def ready_def start_def ready_at_once_def cached_value_def cache_ready_def
       is_limit_error_def py_or_def)

end
